theory Spec2Isabelle
  imports Complex_Main
begin

section \<open>Python values and errors\<close>

text \<open>
  The exceptions of the Python source are values of \<open>py_error\<close>; a function that can
  raise returns \<open>py_error + 'a\<close>, with \<open>Inl\<close> for the raise.
\<close>

datatype py_error =
    ValueError
  | OperationalError
  | StoreError
  | FileError
  | ReadinessError

subsection \<open>\<open>range(start, stop, step)\<close>\<close>

text \<open>
  Python's \<open>range\<close> counts up for a positive step, down for a negative one, and raises
  \<open>ValueError\<close> for a step of zero.
\<close>

function range_up :: "int \<Rightarrow> int \<Rightarrow> int \<Rightarrow> int list" where
  "range_up i stop step =
     (if 0 < step \<and> i < stop then i # range_up (i + step) stop step else [])"
  by pat_completeness auto
termination
  by (relation "measure (\<lambda>(i, stop, step). nat (stop - i))") auto

declare range_up.simps [simp del]

function range_down :: "int \<Rightarrow> int \<Rightarrow> int \<Rightarrow> int list" where
  "range_down i stop step =
     (if step < 0 \<and> stop < i then i # range_down (i + step) stop step else [])"
  by pat_completeness auto
termination
  by (relation "measure (\<lambda>(i, stop, step). nat (i - stop))") auto

declare range_down.simps [simp del]

definition py_range :: "int \<Rightarrow> int \<Rightarrow> int \<Rightarrow> py_error + int list" where
  "py_range start stop step =
     (if step = 0 then Inl ValueError
      else if 0 < step then Inr (range_up start stop step)
      else Inr (range_down start stop step))"

subsection \<open>Slicing \<open>data[i:j]\<close>\<close>

text \<open>
  A slice bound is clamped to the length; a negative bound counts from the end. A data
  frame sliced with two integers is sliced by row position, as a list is.
\<close>

definition slice_index :: "nat \<Rightarrow> int \<Rightarrow> nat" where
  "slice_index n i = (if i < 0 then nat (max (i + int n) 0) else min (nat i) n)"

definition py_slice :: "'a list \<Rightarrow> int \<Rightarrow> int \<Rightarrow> 'a list" where
  "py_slice xs i j =
     (let lo = slice_index (length xs) i; hi = slice_index (length xs) j
      in take (hi - lo) (drop lo xs))"

section \<open>BatchChunker: \<open>chunk\<close> (etl.py, lines 119-130)\<close>

text \<open>
  \<^verbatim>\<open>return [data[i:i + size] for i in range(0, len(data), size)]\<close>
\<close>

definition chunk :: "'a list \<Rightarrow> int \<Rightarrow> py_error + 'a list list" where
  "chunk data sz =
     (case py_range 0 (int (length data)) sz of
        Inl e \<Rightarrow> Inl e
      | Inr is \<Rightarrow> Inr (map (\<lambda>i. py_slice data i (i + sz)) is))"

section \<open>Strings\<close>

text \<open>
  A Python \<open>str\<close> is a sequence of Unicode characters: \<open>py_str\<close> is the list of their code
  points. It is the type of the texts that come from outside and that the program
  transforms: the content of the bootstrap script and the \<open>event_type\<close> of an event.
  \<open>ascii\<close> gives the code points of a literal. The texts that the program itself builds
  from digits and punctuation, and the literals of its statements, are of type \<open>string\<close>.
\<close>

type_synonym py_str = "nat list"

definition ascii :: "string \<Rightarrow> py_str" where
  "ascii s = map of_char s"

text \<open>
  \<open>str.upper()\<close> maps every character by the upper-case mapping of the Unicode character
  database, which gives one character or several. On ASCII it maps \<open>a\<close> to \<open>z\<close> to \<open>A\<close>
  to \<open>Z\<close> and leaves every other character. Beyond ASCII the mapping is a table of the
  interpreter, not of the repository: it is the parameter \<open>U\<close>.
\<close>

definition upper_ascii :: "nat \<Rightarrow> nat" where
  "upper_ascii c = (if 97 \<le> c \<and> c \<le> 122 then c - 32 else c)"

definition py_upper :: "(nat \<Rightarrow> py_str) \<Rightarrow> py_str \<Rightarrow> py_str" where
  "py_upper U s = concat (map (\<lambda>c. if c < 128 then [upper_ascii c] else U c) s)"

text \<open>
  The characters that \<open>str.strip()\<close> removes are the white space of Unicode: the controls
  \<open>0x09\<close> to \<open>0x0D\<close> and \<open>0x1C\<close> to \<open>0x1F\<close>, the space, \<open>U+0085\<close>, \<open>U+00A0\<close>,
  \<open>U+1680\<close>, \<open>U+2000\<close> to \<open>U+200A\<close>, \<open>U+2028\<close>, \<open>U+2029\<close>, \<open>U+202F\<close>, \<open>U+205F\<close>
  and \<open>U+3000\<close>.
\<close>

definition is_space :: "nat \<Rightarrow> bool" where
  "is_space c =
     ((9 \<le> c \<and> c \<le> 13) \<or> (28 \<le> c \<and> c \<le> 32) \<or> c = 133 \<or> c = 160 \<or> c = 5760 \<or>
      (8192 \<le> c \<and> c \<le> 8202) \<or> c = 8232 \<or> c = 8233 \<or> c = 8239 \<or> c = 8287 \<or>
      c = 12288)"

definition py_strip :: "py_str \<Rightarrow> py_str" where
  "py_strip s = rev (dropWhile is_space (rev (dropWhile is_space s)))"

definition py_startswith :: "'a list \<Rightarrow> 'a list \<Rightarrow> bool" where
  "py_startswith s p = (take (length p) s = p)"

text \<open>\<open>s.split(c)\<close> for a one-character separator: the pieces between the separators,
  empty pieces included; one piece when the separator does not occur.\<close>

fun py_split :: "'a \<Rightarrow> 'a list \<Rightarrow> 'a list list" where
  "py_split c [] = [[]]"
| "py_split c (x # xs) =
     (if x = c then [] # py_split c xs
      else (case py_split c xs of
              [] \<Rightarrow> [[x]]
            | p # ps \<Rightarrow> (x # p) # ps))"

text \<open>\<open>s.replace(old, new)\<close>: every occurrence of \<open>old\<close>, found from the left and
  not overlapping, is replaced. For an empty \<open>old\<close> Python puts \<open>new\<close> before every
  character and at the end.\<close>

function py_replace :: "string \<Rightarrow> string \<Rightarrow> string \<Rightarrow> string" where
  "py_replace s old new =
     (if old = [] then concat (map (\<lambda>c. new @ [c]) s) @ new
      else if s = [] then []
      else if take (length old) s = old
        then new @ py_replace (drop (length old) s) old new
      else hd s # py_replace (tl s) old new)"
  by pat_completeness auto
termination
  by (relation "measure (\<lambda>(s, old, new). length s)") auto

declare py_replace.simps [simp del]

section \<open>Schema bootstrap: \<open>run_cypher_file\<close> (etl.py, lines 94-116)\<close>

text \<open>
  \<^verbatim>\<open>statements = [stmt.strip() for stmt in content.split(';')
                 if stmt.strip() and not stmt.strip().startswith('//')]\<close>
  and then every non-empty statement of the list is passed to \<open>run_cypher\<close>, in order.
  \<open>cypher_statements\<close> is the list of statements that are executed.
\<close>

definition cypher_statements :: "py_str \<Rightarrow> py_str list" where
  "cypher_statements content =
     filter (\<lambda>statement. statement \<noteq> [])
       (map py_strip
         (filter (\<lambda>stmt. py_strip stmt \<noteq> [] \<and> \<not> py_startswith (py_strip stmt) (ascii ''//''))
           (py_split (of_char CHR '';'') content)))"

section \<open>Dates and timestamps\<close>

text \<open>
  A row is what \<open>read_sql\<close> returns. A \<open>date\<close> column arrives as a calendar date and a
  timestamp column as a date-time with an optional UTC offset in minutes: none for a column
  without time zone; zero for a zoned column whose values had one common offset, since
  \<open>read_sql\<close> converts such a column to UTC. \<open>isoformat\<close> is the library's rendering:
  \<open>YYYY-MM-DDTHH:MM:SS\<close>, then \<open>.ffffff\<close> when the microsecond is not zero, then the
  offset as \<open>+HH:MM\<close> or \<open>-HH:MM\<close> when there is one.
\<close>

record date =
  d_year :: nat
  d_month :: nat
  d_day :: nat

record timestamp =
  ts_date :: date
  ts_hour :: nat
  ts_minute :: nat
  ts_second :: nat
  ts_microsecond :: nat
  ts_utcoffset :: "int option"

definition digit_char :: "nat \<Rightarrow> char" where
  "digit_char d = char_of (48 + d mod 10)"

text \<open>\<open>zpad w n\<close>: the last \<open>w\<close> decimal digits of \<open>n\<close>, zero-padded (the format
  \<open>%0wd\<close> for a number of at most \<open>w\<close> digits).\<close>

definition zpad :: "nat \<Rightarrow> nat \<Rightarrow> string" where
  "zpad w n = map (\<lambda>i. digit_char (n div 10 ^ (w - 1 - i))) [0..<w]"

definition str_date :: "date \<Rightarrow> string" where
  "str_date d = zpad 4 (d_year d) @ ''-'' @ zpad 2 (d_month d) @ ''-'' @ zpad 2 (d_day d)"

definition str_offset :: "int option \<Rightarrow> string" where
  "str_offset off =
     (case off of
        None \<Rightarrow> []
      | Some m \<Rightarrow>
          (if m < 0 then ''-'' else ''+'') @
          zpad 2 (nat \<bar>m\<bar> div 60) @ '':'' @ zpad 2 (nat \<bar>m\<bar> mod 60))"

definition str_time :: "timestamp \<Rightarrow> string" where
  "str_time t =
     str_date (ts_date t) @ ''T'' @ zpad 2 (ts_hour t) @ '':'' @ zpad 2 (ts_minute t) @ '':'' @
     zpad 2 (ts_second t) @
     (if ts_microsecond t = 0 then [] else ''.'' @ zpad 6 (ts_microsecond t))"

definition isoformat :: "timestamp \<Rightarrow> string" where
  "isoformat t = str_time t @ str_offset (ts_utcoffset t)"

text \<open>\<^verbatim>\<open>record['ts'].isoformat().replace('+00:00', 'Z')\<close> (etl.py, lines 279 and 311).\<close>

definition ts_iso :: "timestamp \<Rightarrow> string" where
  "ts_iso t = py_replace (isoformat t) ''+00:00'' ''Z''"

section \<open>Event type to relationship kind (etl.py, lines 301-308)\<close>

definition rel_type_map :: "(py_str \<times> string) list" where
  "rel_type_map =
     [(ascii ''VIEW'', ''VIEWED''), (ascii ''CLICK'', ''CLICKED''),
      (ascii ''ADD_TO_CART'', ''ADDED_TO_CART'')]"

text \<open>\<^verbatim>\<open>rel_type_map.get(event_type, 'INTERACTED_WITH')\<close> with
  \<^verbatim>\<open>event_type = record['event_type'].upper()\<close>.\<close>

definition rel_type :: "(nat \<Rightarrow> py_str) \<Rightarrow> py_str \<Rightarrow> string" where
  "rel_type U event_type =
     (case map_of rel_type_map (py_upper U event_type) of
        Some k \<Rightarrow> k
      | None \<Rightarrow> ''INTERACTED_WITH'')"

text \<open>
  Two characters are the same letter when they are equal or are the two cases of one ASCII
  letter. This is the reading of ``case-insensitive'' that the properties of \<open>rel_type\<close> are
  stated with; it is not used by the program.
\<close>

definition same_letter :: "nat \<Rightarrow> nat \<Rightarrow> bool" where
  "same_letter c d =
     (c = d \<or> (65 \<le> c \<and> c \<le> 90 \<and> d = c + 32) \<or> (65 \<le> d \<and> d \<le> 90 \<and> c = d + 32))"

section \<open>Rows of the relational source\<close>

text \<open>
  A cell of a row is \<open>NULL\<close>, an integer or a text; the columns that the pipeline
  transforms have their own types: \<open>join_date\<close> is a date, \<open>ts\<close> a timestamp and
  \<open>event_type\<close> a \<open>str\<close>. The customer and order rows are polymorphic in that column, since
  the pipeline overwrites it with its string form before the row is sent.
\<close>

datatype val = Null | IntV int | StrV string

record category_row =
  c_id :: val
  c_name :: val

record product_row =
  p_id :: val
  p_name :: val
  p_price :: val
  p_category_id :: val

record 'd customer_row =
  cu_id :: val
  cu_name :: val
  cu_join_date :: 'd

record 't order_row =
  o_id :: val
  o_customer_id :: val
  o_ts :: 't

record order_item_row =
  oi_order_id :: val
  oi_product_id :: val
  oi_quantity :: val

record event_row =
  e_id :: val
  e_customer_id :: val
  e_product_id :: val
  e_event_type :: py_str
  e_ts :: timestamp

record tables =
  df_categories :: "category_row list"
  df_products :: "product_row list"
  df_customers :: "date customer_row list"
  df_orders :: "timestamp order_row list"
  df_order_items :: "order_item_row list"
  df_events :: "event_row list"

section \<open>The calls of \<open>run_cypher\<close>\<close>

text \<open>
  One constructor for each statement text that \<open>etl\<close> passes to the graph store, with the
  parameters of the call: a statement of the bootstrap script, the reset
  \<^verbatim>\<open>MATCH (n) DETACH DELETE n\<close>, the five \<^verbatim>\<open>UNWIND $batch AS row ...\<close> statements with
  their batch, the event statement with its relationship type and its four parameters, and
  the five counting queries of the verification step.
\<close>

record event_params =
  ep_customer_id :: val
  ep_product_id :: val
  ep_event_id :: val
  ep_ts :: string

datatype call =
    Statement py_str
  | DetachDeleteAll
  | CategoryBatch "category_row list"
  | ProductBatch "product_row list"
  | CustomerBatch "string customer_row list"
  | OrderBatch "string order_row list"
  | OrderItemBatch "order_item_row list"
  | EventWrite string event_params
  | CountNodes string
  | CountRels

text \<open>\<^verbatim>\<open>record['join_date'] = str(record['join_date'])\<close> (line 258).\<close>

definition customer_record :: "date customer_row \<Rightarrow> string customer_row" where
  "customer_record r =
     \<lparr>cu_id = cu_id r, cu_name = cu_name r, cu_join_date = str_date (cu_join_date r)\<rparr>"

text \<open>\<^verbatim>\<open>record['ts'] = record['ts'].isoformat().replace('+00:00', 'Z')\<close> (line 279).\<close>

definition order_record :: "timestamp order_row \<Rightarrow> string order_row" where
  "order_record r = \<lparr>o_id = o_id r, o_customer_id = o_customer_id r, o_ts = ts_iso (o_ts r)\<rparr>"

text \<open>The body of the inner loop over the events (lines 300-326).\<close>

definition event_call :: "(nat \<Rightarrow> py_str) \<Rightarrow> event_row \<Rightarrow> call" where
  "event_call U record =
     EventWrite (rel_type U (e_event_type record))
       \<lparr>ep_customer_id = e_customer_id record, ep_product_id = e_product_id record,
        ep_event_id = e_id record, ep_ts = ts_iso (e_ts record)\<rparr>"

text \<open>
  The loops \<^verbatim>\<open>for batch in chunk(df): ... run_cypher(driver, query, {"batch": records})\<close>:
  the calls that a loop makes, in order; \<open>chunk\<close> is called with its default size of 500.
\<close>

definition batched :: "('a list \<Rightarrow> call) \<Rightarrow> 'a list \<Rightarrow> py_error + call list" where
  "batched mk df = (case chunk df 500 of Inl e \<Rightarrow> Inl e | Inr bs \<Rightarrow> Inr (map mk bs))"

definition category_calls :: "category_row list \<Rightarrow> py_error + call list" where
  "category_calls df = batched CategoryBatch df"

definition product_calls :: "product_row list \<Rightarrow> py_error + call list" where
  "product_calls df = batched ProductBatch df"

definition customer_calls :: "date customer_row list \<Rightarrow> py_error + call list" where
  "customer_calls df = batched (\<lambda>batch. CustomerBatch (map customer_record batch)) df"

definition order_calls :: "timestamp order_row list \<Rightarrow> py_error + call list" where
  "order_calls df = batched (\<lambda>batch. OrderBatch (map order_record batch)) df"

definition order_item_calls :: "order_item_row list \<Rightarrow> py_error + call list" where
  "order_item_calls df = batched OrderItemBatch df"

definition event_calls :: "(nat \<Rightarrow> py_str) \<Rightarrow> event_row list \<Rightarrow> py_error + call list" where
  "event_calls U df =
     (case chunk df 500 of
        Inl e \<Rightarrow> Inl e
      | Inr bs \<Rightarrow> Inr (concat (map (\<lambda>batch. map (event_call U) batch) bs)))"

definition verify_calls :: "call list" where
  "verify_calls =
     [CountNodes ''Customer'', CountNodes ''Product'', CountNodes ''Order'',
      CountNodes ''Category'', CountRels]"

section \<open>The graph store\<close>

text \<open>
  The store holds nodes and relationships. A node has a label, its \<open>id\<close> property and its
  other properties; a relationship has a type, its two end nodes (positions in the list of
  nodes) and its properties. \<open>exec\<close> is the effect of each statement of the pipeline on
  the store, by the semantics of the statement's clauses: \<open>UNWIND\<close> runs the rest of the
  statement once for each row of the batch, \<open>CREATE\<close> adds a node or a relationship,
  and \<open>MATCH (x:L {id: v})\<close> continues once for each node of label \<open>L\<close> whose \<open>id\<close>
  equals \<open>v\<close>, so not at all when there is none (and a \<open>NULL\<close> equals nothing). The
  conversions \<open>date(...)\<close> and \<open>datetime(...)\<close> are not modelled: the property keeps the
  string.
\<close>

record node =
  n_label :: string
  n_id :: val
  n_props :: "(string \<times> val) list"

record rel =
  r_type :: string
  r_src :: nat
  r_dst :: nat
  r_props :: "(string \<times> val) list"

record graph =
  nodes :: "node list"
  rels :: "rel list"

definition empty_graph :: graph where
  "empty_graph = \<lparr>nodes = [], rels = []\<rparr>"

definition match_nodes :: "graph \<Rightarrow> string \<Rightarrow> val \<Rightarrow> nat list" where
  "match_nodes g l v =
     filter (\<lambda>i. n_label (nodes g ! i) = l \<and> v \<noteq> Null \<and> n_id (nodes g ! i) = v)
       [0..<length (nodes g)]"

definition create_node :: "graph \<Rightarrow> node \<Rightarrow> graph" where
  "create_node g n = g\<lparr>nodes := nodes g @ [n]\<rparr>"

definition create_rels :: "graph \<Rightarrow> rel list \<Rightarrow> graph" where
  "create_rels g rs = g\<lparr>rels := rels g @ rs\<rparr>"

text \<open>\<^verbatim>\<open>CREATE (c:Category {id: row.id, name: row.name})\<close>\<close>

definition category_row_exec :: "graph \<Rightarrow> category_row \<Rightarrow> graph" where
  "category_row_exec g row =
     create_node g \<lparr>n_label = ''Category'', n_id = c_id row, n_props = [(''name'', c_name row)]\<rparr>"

text \<open>\<^verbatim>\<open>CREATE (p:Product {id: row.id, name: row.name, price: row.price})
WITH p, row MATCH (c:Category {id: row.category_id}) CREATE (p)-[:IN_CATEGORY]->(c)\<close>\<close>

definition product_row_exec :: "graph \<Rightarrow> product_row \<Rightarrow> graph" where
  "product_row_exec g row =
     (let p = length (nodes g);
          g1 = create_node g \<lparr>n_label = ''Product'', n_id = p_id row,
                 n_props = [(''name'', p_name row), (''price'', p_price row)]\<rparr>
      in create_rels g1
           (map (\<lambda>c. \<lparr>r_type = ''IN_CATEGORY'', r_src = p, r_dst = c, r_props = []\<rparr>)
              (match_nodes g1 ''Category'' (p_category_id row))))"

text \<open>\<^verbatim>\<open>CREATE (c:Customer {id: row.id, name: row.name, join_date: date(row.join_date)})\<close>\<close>

definition customer_row_exec :: "graph \<Rightarrow> string customer_row \<Rightarrow> graph" where
  "customer_row_exec g row =
     create_node g \<lparr>n_label = ''Customer'', n_id = cu_id row,
       n_props = [(''name'', cu_name row), (''join_date'', StrV (cu_join_date row))]\<rparr>"

text \<open>\<^verbatim>\<open>CREATE (o:Order {id: row.id, ts: datetime(row.ts)})
WITH o, row MATCH (c:Customer {id: row.customer_id}) CREATE (c)-[:PLACED]->(o)\<close>\<close>

definition order_row_exec :: "graph \<Rightarrow> string order_row \<Rightarrow> graph" where
  "order_row_exec g row =
     (let ord = length (nodes g);
          g1 = create_node g \<lparr>n_label = ''Order'', n_id = o_id row,
                 n_props = [(''ts'', StrV (o_ts row))]\<rparr>
      in create_rels g1
           (map (\<lambda>c. \<lparr>r_type = ''PLACED'', r_src = c, r_dst = ord, r_props = []\<rparr>)
              (match_nodes g1 ''Customer'' (o_customer_id row))))"

text \<open>\<^verbatim>\<open>MATCH (o:Order {id: row.order_id}) MATCH (p:Product {id: row.product_id})
CREATE (o)-[:CONTAINS {quantity: row.quantity}]->(p)\<close>\<close>

definition contains_edges :: "graph \<Rightarrow> order_item_row \<Rightarrow> rel list" where
  "contains_edges g row =
     concat (map (\<lambda>ord. map (\<lambda>p. \<lparr>r_type = ''CONTAINS'', r_src = ord, r_dst = p,
                                  r_props = [(''quantity'', oi_quantity row)]\<rparr>)
                          (match_nodes g ''Product'' (oi_product_id row)))
                 (match_nodes g ''Order'' (oi_order_id row)))"

definition order_item_row_exec :: "graph \<Rightarrow> order_item_row \<Rightarrow> graph" where
  "order_item_row_exec g row = create_rels g (contains_edges g row)"

text \<open>\<^verbatim>\<open>MATCH (c:Customer {id: $customer_id}) MATCH (p:Product {id: $product_id})
CREATE (c)-[:{rel_type} {event_id: $event_id, ts: datetime($ts)}]->(p)\<close>\<close>

definition event_exec :: "string \<Rightarrow> event_params \<Rightarrow> graph \<Rightarrow> graph" where
  "event_exec rt ps g =
     create_rels g
       (concat (map (\<lambda>c. map (\<lambda>p. \<lparr>r_type = rt, r_src = c, r_dst = p,
                                    r_props = [(''event_id'', ep_event_id ps),
                                               (''ts'', StrV (ep_ts ps))]\<rparr>)
                            (match_nodes g ''Product'' (ep_product_id ps)))
                   (match_nodes g ''Customer'' (ep_customer_id ps))))"

text \<open>
  Modelled from the spec: the bootstrap script \<open>queries.cypher\<close> is not among the sources.
  The spec calls it an idempotent constraint and index bootstrap, so a \<open>Statement\<close> leaves the
  nodes and the relationships as they are. The counting queries only read.
\<close>

fun exec :: "call \<Rightarrow> graph \<Rightarrow> graph" where
  "exec (Statement s) g = g"
| "exec DetachDeleteAll g = empty_graph"
| "exec (CategoryBatch batch) g = foldl category_row_exec g batch"
| "exec (ProductBatch batch) g = foldl product_row_exec g batch"
| "exec (CustomerBatch batch) g = foldl customer_row_exec g batch"
| "exec (OrderBatch batch) g = foldl order_row_exec g batch"
| "exec (OrderItemBatch batch) g = foldl order_item_row_exec g batch"
| "exec (EventWrite rt ps) g = event_exec rt ps g"
| "exec (CountNodes l) g = g"
| "exec CountRels g = g"

section \<open>The pipeline: \<open>etl\<close> (etl.py, lines 133-352)\<close>

text \<open>
  What the run meets outside the program is its environment: whether the two readiness
  polls return, whether each connection is acquired, the content of \<open>queries.cypher\<close> (or
  the error of opening it), the result of each \<open>read_sql\<close> (the rows or an error), the
  upper-case mapping of the interpreter's Unicode tables beyond ASCII, and
  \<open>store_fault\<close>: the number of calls that the graph store serves before one raises, if
  one does (a lost connection, a violated constraint, a statement that it rejects).
\<close>

record env =
  postgres_ready :: bool
  neo4j_ready :: bool
  pg_connect_ok :: bool
  driver_ok :: bool
  queries_cypher :: "py_error + py_str"
  store_fault :: "nat option"
  unicode_upper :: "nat \<Rightarrow> py_str"
  sql_categories :: "py_error + category_row list"
  sql_products :: "py_error + product_row list"
  sql_customers :: "py_error + date customer_row list"
  sql_orders :: "py_error + timestamp order_row list"
  sql_order_items :: "py_error + order_item_row list"
  sql_events :: "py_error + event_row list"

text \<open>The state of the \<open>try\<close> block: the exception raised, if any, the graph, and the
  calls that the store has served so far.\<close>

type_synonym run_state = "py_error option \<times> graph \<times> call list"

text \<open>\<open>run_calls fault k cs g\<close> makes the calls \<open>cs\<close> in order, the first of them being
  call number \<open>k\<close> of the run, and stops at the call that raises.\<close>

fun run_calls :: "nat option \<Rightarrow> nat \<Rightarrow> call list \<Rightarrow> graph \<Rightarrow> run_state" where
  "run_calls fault k [] g = (None, g, [])"
| "run_calls fault k (c # cs) g =
     (if fault = Some k then (Some StoreError, g, [])
      else (case run_calls fault (Suc k) cs (exec c g) of
              (e, g', served) \<Rightarrow> (e, g', c # served)))"

text \<open>A step of the \<open>try\<close> block that makes calls: skipped once an exception is raised;
  it raises itself when its list of calls cannot be built.\<close>

fun run_phase :: "nat option \<Rightarrow> py_error + call list \<Rightarrow> run_state \<Rightarrow> run_state" where
  "run_phase fault cs (Some e, g, served) = (Some e, g, served)"
| "run_phase fault (Inl e) (None, g, served) = (Some e, g, served)"
| "run_phase fault (Inr cs) (None, g, served) =
     (case run_calls fault (length served) cs g of
        (e, g', served') \<Rightarrow> (e, g', served @ served'))"

text \<open>Step 3, the six \<open>read_sql\<close> calls in order: the first error is raised.\<close>

definition extract_tables :: "env \<Rightarrow> py_error + tables" where
  "extract_tables env =
     (case sql_categories env of Inl e \<Rightarrow> Inl e | Inr cats \<Rightarrow>
      case sql_products env of Inl e \<Rightarrow> Inl e | Inr prods \<Rightarrow>
      case sql_customers env of Inl e \<Rightarrow> Inl e | Inr custs \<Rightarrow>
      case sql_orders env of Inl e \<Rightarrow> Inl e | Inr ords \<Rightarrow>
      case sql_order_items env of Inl e \<Rightarrow> Inl e | Inr items \<Rightarrow>
      case sql_events env of Inl e \<Rightarrow> Inl e | Inr evs \<Rightarrow>
        Inr \<lparr>df_categories = cats, df_products = prods, df_customers = custs,
             df_orders = ords, df_order_items = items, df_events = evs\<rparr>)"

text \<open>Steps 4 and 5: the six loading loops, then the verification.\<close>

definition load :: "(nat \<Rightarrow> py_str) \<Rightarrow> nat option \<Rightarrow> tables \<Rightarrow> run_state \<Rightarrow> run_state" where
  "load U fault t s =
     run_phase fault (Inr verify_calls)
       (run_phase fault (event_calls U (df_events t))
         (run_phase fault (order_item_calls (df_order_items t))
           (run_phase fault (order_calls (df_orders t))
             (run_phase fault (customer_calls (df_customers t))
               (run_phase fault (product_calls (df_products t))
                 (run_phase fault (category_calls (df_categories t)) s))))))"

text \<open>The \<open>try\<close> block (lines 176-347).\<close>

definition etl_body :: "env \<Rightarrow> graph \<Rightarrow> run_state" where
  "etl_body env g =
     (case queries_cypher env of
        Inl e \<Rightarrow> (Some e, g, [])
      | Inr content \<Rightarrow>
          (case run_phase (store_fault env) (Inr [DetachDeleteAll])
                  (run_phase (store_fault env)
                     (Inr (map Statement (cypher_statements content))) (None, g, [])) of
             (Some e, g', served) \<Rightarrow> (Some e, g', served)
           | (None, g', served) \<Rightarrow>
               (case extract_tables env of
                  Inl e \<Rightarrow> (Some e, g', served)
                | Inr t \<Rightarrow> load (unicode_upper env) (store_fault env) t (None, g', served))))"

text \<open>
  The whole run. The trace lists what the run does with its two connections and the calls
  that the store serves. The connections are acquired before the \<open>try\<close> block; its
  \<open>finally\<close> clause closes them.
\<close>

datatype action = PgConnect | DriverCreate | Run call | PgClose | DriverClose

record outcome =
  raised :: "py_error option"
  graph_after :: graph
  trace :: "action list"

definition etl :: "env \<Rightarrow> graph \<Rightarrow> outcome" where
  "etl env g =
     (if \<not> postgres_ready env then \<lparr>raised = Some ReadinessError, graph_after = g, trace = []\<rparr>
      else if \<not> neo4j_ready env then
        \<lparr>raised = Some ReadinessError, graph_after = g, trace = []\<rparr>
      else if \<not> pg_connect_ok env then
        \<lparr>raised = Some OperationalError, graph_after = g, trace = []\<rparr>
      else if \<not> driver_ok env then
        \<lparr>raised = Some StoreError, graph_after = g, trace = [PgConnect]\<rparr>
      else (case etl_body env g of
              (e, g', served) \<Rightarrow>
                \<lparr>raised = e, graph_after = g',
                 trace = [PgConnect, DriverCreate] @ map Run served @ [PgClose, DriverClose]\<rparr>))"

text \<open>The counts that the verification step reports.\<close>

definition count_label :: "string \<Rightarrow> graph \<Rightarrow> nat" where
  "count_label l g = length (filter (\<lambda>n. n_label n = l) (nodes g))"

definition verify_counts :: "graph \<Rightarrow> nat list" where
  "verify_counts g =
     [count_label ''Customer'' g, count_label ''Product'' g, count_label ''Order'' g,
      count_label ''Category'' g, length (rels g)]"

section \<open>The read API: error handling of the endpoints (main.py)\<close>

text \<open>
  Every endpoint is one \<open>try\<close> block around its work with the graph store. The work is
  given by its result: \<open>Inl msg\<close> when an exception with the text \<open>msg\<close> is raised inside
  the block, \<open>Inr body\<close> when the block reaches its \<open>return\<close> with that body.
\<close>

datatype 'a response = Return 'a | HTTPException nat string

record health_body =
  ok :: bool
  error :: "string option"

definition health_check :: "string + unit \<Rightarrow> health_body response" where
  "health_check work =
     (case work of
        Inr _ \<Rightarrow> Return \<lparr>ok = True, error = None\<rparr>
      | Inl e \<Rightarrow> Return \<lparr>ok = False, error = Some e\<rparr>)"

definition database_guard :: "string + 'a \<Rightarrow> 'a response" where
  "database_guard work =
     (case work of
        Inr body \<Rightarrow> Return body
      | Inl e \<Rightarrow> HTTPException 500 (''Database error: '' @ e))"

definition graph_stats :: "string + 'a \<Rightarrow> 'a response" where
  "graph_stats work = database_guard work"

definition collaborative_recommendations :: "string + 'a \<Rightarrow> 'a response" where
  "collaborative_recommendations work = database_guard work"

definition similar_product_recommendations :: "string + 'a \<Rightarrow> 'a response" where
  "similar_product_recommendations work = database_guard work"

definition category_recommendations :: "string + 'a \<Rightarrow> 'a response" where
  "category_recommendations work = database_guard work"

definition trending_recommendations :: "string + 'a \<Rightarrow> 'a response" where
  "trending_recommendations work = database_guard work"

definition list_customers :: "string + 'a \<Rightarrow> 'a response" where
  "list_customers work = database_guard work"

definition list_products :: "string + 'a \<Rightarrow> 'a response" where
  "list_products work = database_guard work"

section \<open>Example inputs\<close>

text \<open>
  A small run: a bootstrap script of one statement, one category, one product in it, no
  customer, no order, no event, and one order item whose order does not exist. No failure
  outside the program; the upper-case mapping beyond ASCII is left open here as the identity,
  since no event type is read.
\<close>

definition example_item :: order_item_row where
  "example_item = \<lparr>oi_order_id = IntV 99, oi_product_id = IntV 10, oi_quantity = IntV 2\<rparr>"

definition example_tables :: tables where
  "example_tables =
     \<lparr>df_categories = [\<lparr>c_id = IntV 1, c_name = StrV ''Books''\<rparr>],
      df_products = [\<lparr>p_id = IntV 10, p_name = StrV ''Atlas'', p_price = IntV 30,
                      p_category_id = IntV 1\<rparr>],
      df_customers = [],
      df_orders = [],
      df_order_items = [example_item],
      df_events = []\<rparr>"

definition example_env :: env where
  "example_env =
     \<lparr>postgres_ready = True, neo4j_ready = True, pg_connect_ok = True, driver_ok = True,
      queries_cypher = Inr (ascii ''CREATE INDEX i;''), store_fault = None,
      unicode_upper = (\<lambda>c. [c]),
      sql_categories = Inr (df_categories example_tables),
      sql_products = Inr (df_products example_tables),
      sql_customers = Inr (df_customers example_tables),
      sql_orders = Inr (df_orders example_tables),
      sql_order_items = Inr (df_order_items example_tables),
      sql_events = Inr (df_events example_tables)\<rparr>"

text \<open>The graph that this run leaves, and a graph with other content.\<close>

definition example_graph :: graph where
  "example_graph =
     \<lparr>nodes = [\<lparr>n_label = ''Category'', n_id = IntV 1, n_props = [(''name'', StrV ''Books'')]\<rparr>,
               \<lparr>n_label = ''Product'', n_id = IntV 10,
                n_props = [(''name'', StrV ''Atlas''), (''price'', IntV 30)]\<rparr>],
      rels = [\<lparr>r_type = ''IN_CATEGORY'', r_src = 1, r_dst = 0, r_props = []\<rparr>]\<rparr>"

definition other_graph :: graph where
  "other_graph =
     \<lparr>nodes = [\<lparr>n_label = ''Customer'', n_id = IntV 7, n_props = []\<rparr>], rels = []\<rparr>"

section \<open>Properties of \<open>chunk\<close>\<close>

lemma range_up_closed:
  assumes "0 < step"
  shows "range_up i stop step =
           map (\<lambda>j. i + int j * step) [0..<nat ((stop - i + step - 1) div step)]"
  using assms
proof (induction i stop step rule: range_up.induct)
  case (1 i stop step)
  show ?case
  proof (cases "i < stop")
    case False
    with "1.prems" have "(stop - i + step - 1) div step \<le> 0"
      by (smt (verit) div_by_0 zdiv_mono1 div_pos_pos_trivial pos_imp_zdiv_neg_iff)
    with False "1.prems" show ?thesis by (simp add: range_up.simps [of i])
  next
    case True
    have "stop - i + step - 1 = (stop - (i + step) + step - 1) + step" by simp
    then have eq: "(stop - i + step - 1) div step = (stop - (i + step) + step - 1) div step + 1"
      using "1.prems" by (metis div_add_self2 less_irrefl)
    have nonneg: "0 \<le> (stop - (i + step) + step - 1) div step"
      using True "1.prems" by (simp add: pos_imp_zdiv_nonneg_iff)
    have "nat ((stop - i + step - 1) div step) = Suc (nat ((stop - (i + step) + step - 1) div step))"
      using eq nonneg by simp
    then have "[0..<nat ((stop - i + step - 1) div step)] =
               0 # map Suc [0..<nat ((stop - (i + step) + step - 1) div step)]"
      by (simp add: upt_conv_Cons map_Suc_upt del: upt_Suc)
    moreover have "range_up (i + step) stop step =
        map (\<lambda>j. i + step + int j * step) [0..<nat ((stop - (i + step) + step - 1) div step)]"
      using "1.IH" True "1.prems" by simp
    ultimately show ?thesis using True "1.prems"
      by (simp add: range_up.simps [of i] o_def algebra_simps)
  qed
qed


lemma py_slice_block:
  assumes "0 < s" "j * nat s < length xs"
  shows "py_slice xs (int j * s) (int j * s + s) = take (nat s) (drop (j * nat s) xs)"
proof -
  have nn: "0 \<le> int j * s" "\<not> int j * s < 0" "\<not> int j * s + s < 0"
    using assms(1) by (simp_all add: add_nonneg_nonneg not_less)
  have lo: "slice_index (length xs) (int j * s) = j * nat s"
    using assms nn by (simp add: slice_index_def nat_mult_distrib)
  have "nat (int j * s + s) = j * nat s + nat s"
    using assms nn by (simp add: nat_add_distrib nat_mult_distrib)
  then have hi: "slice_index (length xs) (int j * s + s) = min (j * nat s + nat s) (length xs)"
    using nn by (simp add: slice_index_def)
  show ?thesis
    unfolding py_slice_def Let_def lo hi using assms(2)
    by (cases "j * nat s + nat s \<le> length xs") (simp_all add: min_def)
qed

lemma ceil_div_nat:
  assumes "0 < s"
  shows "nat ((int n + s - 1) div s) = (n + nat s - 1) div nat s"
proof -
  have "int n + s - 1 = int (n + nat s - 1)" using assms by auto
  moreover have "s = int (nat s)" using assms by simp
  ultimately have "(int n + s - 1) div s = int ((n + nat s - 1) div nat s)"
    by (metis zdiv_int)
  then show ?thesis by simp
qed

lemma block_bound:
  assumes "0 < k" "j < (n + k - 1) div k"
  shows "j * k < (n::nat)"
proof -
  have "Suc j \<le> (n + k - 1) div k" using assms by simp
  then have "Suc j * k \<le> n + k - 1"
    using assms(1) by (simp add: less_eq_div_iff_mult_less_eq)
  then show ?thesis using assms(1) by simp
qed

lemma chunk_blocks:
  assumes "0 < s"
  shows "chunk xs s =
    Inr (map (\<lambda>j. take (nat s) (drop (j * nat s) xs))
          [0..<(length xs + nat s - 1) div nat s])"
proof -
  have r: "range_up 0 (int (length xs)) s =
      map (\<lambda>j. int j * s) [0..<(length xs + nat s - 1) div nat s]"
    using assms ceil_div_nat [OF assms, of "length xs"] by (simp add: range_up_closed)
  have b: "map (\<lambda>j. py_slice xs (int j * s) (int j * s + s))
          [0..<(length xs + nat s - 1) div nat s] =
        map (\<lambda>j. take (nat s) (drop (j * nat s) xs))
          [0..<(length xs + nat s - 1) div nat s]"
  proof (rule map_cong [OF refl])
    fix j assume "j \<in> set [0..<(length xs + nat s - 1) div nat s]"
    then have "j < (length xs + nat s - 1) div nat s" by simp
    then have "j * nat s < length xs" using assms by (intro block_bound) simp_all
    then show "py_slice xs (int j * s) (int j * s + s) = take (nat s) (drop (j * nat s) xs)"
      by (rule py_slice_block [OF assms])
  qed
  have "chunk xs s = Inr (map (\<lambda>i. py_slice xs i (i + s)) (range_up 0 (int (length xs)) s))"
    using assms by (simp add: chunk_def py_range_def)
  also have "map (\<lambda>i. py_slice xs i (i + s)) (range_up 0 (int (length xs)) s) =
        map (\<lambda>j. py_slice xs (int j * s) (int j * s + s))
          [0..<(length xs + nat s - 1) div nat s]"
    unfolding r by (simp add: o_def)
  finally show ?thesis unfolding b .
qed

lemma concat_blocks:
  "concat (map (\<lambda>j. take k (drop (j * k) xs)) [0..<m]) = take (m * k) xs"
proof (induction m)
  case 0
  show ?case by simp
next
  case (Suc m)
  have "take (m * k) xs @ take k (drop (m * k) xs) = take (m * k + k) xs"
    by (simp add: take_add)
  with Suc show ?case by (simp add: add.commute)
qed

lemma ceil_cover:
  assumes "0 < k"
  shows "(n::nat) \<le> ((n + k - 1) div k) * k"
proof -
  have "n + k - 1 < ((n + k - 1) div k) * k + k"
    using assms by (metis add.commute dividend_less_div_times)
  then show ?thesis using assms by simp
qed

lemma last_block_size:
  assumes "0 < k" "0 < (n::nat)"
  shows "min k (n - ((n + k - 1) div k - 1) * k) = (if n mod k = 0 then k else n mod k)"
proof -
  define q where "q = n div k"
  define r where "r = n mod k"
  have n: "n = q * k + r" and r: "r < k"
    using assms by (simp_all add: q_def r_def)
  have "min k (q * k + r - ((q * k + r + k - 1) div k - 1) * k) = (if r = 0 then k else r)"
  proof (cases "r = 0")
    case True
    with n assms have q: "0 < q" by (cases q) simp_all
    have a: "q * k + r + k - 1 = q * k + (k - 1)" using True assms by simp
    have "(q * k + (k - 1)) div k = q + (k - 1) div k"
      using assms(1) by (metis div_mult_self3 less_numeral_extra(3))
    also have "\<dots> = q" using assms(1) by simp
    finally have "(q * k + r + k - 1) div k = q" unfolding a .
    moreover have "q * k - (q - 1) * k = k" using q by (cases q) simp_all
    ultimately show ?thesis using True by simp
  next
    case False
    have "q * k + r + k - 1 = (q + 1) * k + (r - 1)" using False by (simp add: algebra_simps)
    then have "(q * k + r + k - 1) div k = (q + 1) + (r - 1) div k"
      using assms(1) by (metis div_mult_self3 less_numeral_extra(3))
    then have "(q * k + r + k - 1) div k = q + 1" using r by simp
    with r False show ?thesis by simp
  qed
  moreover have "q * k + n mod k = n" by (simp add: q_def)
  ultimately show ?thesis by (simp add: r_def)
qed


lemma blocks_ceil:
  assumes "0 < k"
  shows "int ((n + k - 1) div k) = \<lceil>real n / real k\<rceil>"
proof -
  define m where "m = (n + k - 1) div k"
  have rk: "0 < real k" using assms by simp
  have up: "real n / real k \<le> real m"
  proof -
    have "n \<le> m * k" using ceil_cover [OF assms, of n] by (simp add: m_def)
    then have "real n \<le> real (m * k)" by (simp only: of_nat_le_iff)
    then show ?thesis using rk by (simp add: pos_divide_le_eq)
  qed
  have lo: "real m - 1 < real n / real k"
  proof (cases m)
    case 0
    have "0 \<le> real n / real k" by simp
    then have "- 1 < real n / real k" by linarith
    with 0 show ?thesis by simp
  next
    case (Suc m')
    then have "m' < (n + k - 1) div k" by (simp add: m_def)
    then have "m' * k < n" by (rule block_bound [OF assms])
    then have "real (m' * k) < real n" by (simp only: of_nat_less_iff)
    then have "real m' < real n / real k" using rk by (simp add: pos_less_divide_eq)
    with Suc show ?thesis by simp
  qed
  have "\<lceil>real n / real k\<rceil> = int m"
    by (rule ceiling_unique) (use lo up in simp_all)
  then show ?thesis by (simp add: m_def)
qed

text \<open>The default chunk size of 500: the groups, their number and their concatenation.\<close>

lemma chunk_default:
  "\<exists>bs. chunk df 500 = Inr bs \<and> concat bs = df \<and>
        int (length bs) = \<lceil>real (length df) / 500\<rceil>"
proof -
  have s: "(0::int) < 500" by simp
  have k: "(0::nat) < 500" by simp
  let ?bs = "map (\<lambda>j. take 500 (drop (j * 500) df)) [0..<(length df + 500 - 1) div 500]"
  have "chunk df 500 = Inr ?bs" using chunk_blocks [OF s, of df] by simp
  moreover have "concat ?bs = df"
    using ceil_cover [OF k, of "length df"] by (simp add: concat_blocks)
  moreover have "int (length ?bs) = \<lceil>real (length df) / 500\<rceil>"
    using blocks_ceil [OF k, of "length df"] by simp
  ultimately show ?thesis by blast
qed

text \<open>
  Claim C1. For a chunk size \<open>s > 0\<close> and \<open>n\<close> rows, \<open>chunk\<close> returns without raising,
  and its result has \<open>ceil(n / s)\<close> groups; group \<open>i\<close> is the \<open>s\<close> consecutive rows from
  position \<open>i * s\<close> on (fewer at the end of the input), so every group is non-empty and has at
  most \<open>s\<close> rows; the groups concatenated are the input; the last group has \<open>n mod s\<close>
  rows, or \<open>s\<close> when \<open>s\<close> divides \<open>n\<close>; and an empty input gives no group.
\<close>

theorem chunk_partition:
  assumes "0 < s"
  shows "\<exists>gs. chunk rows s = Inr gs
     \<and> int (length gs) = \<lceil>real (length rows) / real_of_int s\<rceil>
     \<and> (\<forall>i<length gs. gs ! i = take (nat s) (drop (i * nat s) rows))
     \<and> (\<forall>g\<in>set gs. g \<noteq> [] \<and> int (length g) \<le> s)
     \<and> concat gs = rows
     \<and> (rows \<noteq> [] \<longrightarrow> int (length (last gs)) =
            (if int (length rows) mod s = 0 then s else int (length rows) mod s))
     \<and> (rows = [] \<longrightarrow> gs = [])"
proof -
  define k where "k = nat s"
  define n where "n = length rows"
  define m where "m = (n + k - 1) div k"
  define gs where "gs = map (\<lambda>j. take k (drop (j * k) rows)) [0..<m]"
  have k: "0 < k" and sk: "s = int k" using assms by (simp_all add: k_def)
  have c: "chunk rows s = Inr gs"
    using chunk_blocks [OF assms, of rows] by (simp add: gs_def m_def n_def k_def)
  have len: "length gs = m" by (simp add: gs_def)
  have nth: "gs ! i = take k (drop (i * k) rows)" if "i < length gs" for i
    using that by (simp add: gs_def)
  have lt: "j * k < n" if "j < m" for j
    using block_bound [OF k, of j n] that by (simp add: m_def)
  have cov: "n \<le> m * k"
    using ceil_cover [OF k, of n] by (simp add: m_def)
  have ceil: "int m = \<lceil>real n / real_of_int s\<rceil>"
    using blocks_ceil [OF k, of n] by (simp add: m_def sk)
  have grp: "g \<noteq> [] \<and> int (length g) \<le> s" if "g \<in> set gs" for g
  proof -
    from that obtain j where j: "j < m" and g: "g = take k (drop (j * k) rows)"
      by (auto simp: gs_def)
    from lt [OF j] k show ?thesis by (simp add: g sk n_def)
  qed
  have cat: "concat gs = rows"
    using cov by (simp add: gs_def concat_blocks n_def)
  have lastg: "int (length (last gs)) =
      (if int (length rows) mod s = 0 then s else int (length rows) mod s)" if "rows \<noteq> []"
  proof -
    from that have n0: "0 < n" by (simp add: n_def)
    with k have m0: "0 < m"
      by (simp add: m_def div_greater_zero_iff)
    then have "gs \<noteq> []" by (simp add: gs_def)
    then have "last gs = gs ! (m - 1)" by (simp add: last_conv_nth len)
    also have "\<dots> = take k (drop ((m - 1) * k) rows)" using m0 by (simp add: nth len)
    finally have "length (last gs) = min k (n - (m - 1) * k)"
      by (simp add: n_def min.commute)
    also have "\<dots> = (if n mod k = 0 then k else n mod k)"
      unfolding m_def by (rule last_block_size [OF k n0])
    finally have "int (length (last gs)) = (if n mod k = 0 then int k else int (n mod k))"
      by simp
    moreover have "int (n mod k) = int n mod int k" by (rule of_nat_mod)
    moreover have "(int n mod int k = 0) = (n mod k = 0)"
      by (metis of_nat_mod of_nat_eq_0_iff)
    ultimately have "int (length (last gs)) =
        (if int n mod int k = 0 then int k else int n mod int k)"
      by (simp only:)
    then show ?thesis by (simp only: sk n_def)
  qed
  have emp: "gs = []" if "rows = []"
    using that k by (simp add: gs_def m_def n_def)
  show ?thesis
  proof (intro exI [of _ gs] conjI allI impI ballI)
    show "chunk rows s = Inr gs" by (rule c)
    show "int (length gs) = \<lceil>real (length rows) / real_of_int s\<rceil>"
      using ceil by (simp only: len n_def)
    show "gs ! i = take (nat s) (drop (i * nat s) rows)" if "i < length gs" for i
      using nth [OF that] by (simp only: k_def)
    show "g \<noteq> []" if "g \<in> set gs" for g using grp [OF that] by (rule conjunct1)
    show "int (length g) \<le> s" if "g \<in> set gs" for g using grp [OF that] by (rule conjunct2)
    show "concat gs = rows" by (rule cat)
    show "int (length (last gs)) =
        (if int (length rows) mod s = 0 then s else int (length rows) mod s)"
      if "rows \<noteq> []" using that by (rule lastg)
    show "gs = []" if "rows = []" using that by (rule emp)
  qed
qed

theorem chunk_partition_witness:
  "(0::int) < 2 \<and> (\<exists>gs. chunk [10, 20, 30, 40, 50 :: nat] 2 = Inr gs
        \<and> gs = [[10, 20], [30, 40], [50]] \<and> concat gs = [10, 20, 30, 40, 50])"
proof -
  have h: "(0::int) < 2" by simp
  from chunk_partition [OF h, of "[10, 20, 30, 40, 50 :: nat]"]
  obtain gs where g: "chunk [10, 20, 30, 40, 50 :: nat] 2 = Inr gs"
    and c: "concat gs = [10, 20, 30, 40, 50]" by blast
  have e: "chunk [10, 20, 30, 40, 50 :: nat] 2 = Inr [[10, 20], [30, 40], [50]]"
    by (simp add: chunk_def py_range_def py_slice_def slice_index_def range_up.simps)
  from g e have "gs = [[10, 20], [30, 40], [50]]" by simp
  with h g c show ?thesis by blast
qed

text \<open>
  Claim C9. \<open>chunk\<close> does not check its size: a size of zero raises (the \<open>ValueError\<close> of
  \<open>range\<close>), and a negative size on a non-empty input returns no group at all, so the
  rows are not covered by the result.
\<close>

theorem chunk_unchecked_size:
  "chunk rows 0 = Inl ValueError \<and>
   (s < 0 \<and> rows \<noteq> [] \<longrightarrow> chunk rows s = Inr [] \<and> concat ([] :: 'a list list) \<noteq> rows)"
  by (auto simp add: chunk_def py_range_def range_down.simps)

theorem chunk_unchecked_size_witness:
  "(-1::int) < 0 \<and> [1, 2, 3 :: nat] \<noteq> [] \<and> chunk [1, 2, 3 :: nat] 0 = Inl ValueError
   \<and> chunk [1, 2, 3 :: nat] (-1) = Inr []"
  using chunk_unchecked_size [of "[1, 2, 3 :: nat]" "-1"] by simp

section \<open>Properties of the transformations\<close>

lemma rel_type_table:
  "rel_type U event_type =
     (if py_upper U event_type = ascii ''VIEW'' then ''VIEWED''
      else if py_upper U event_type = ascii ''CLICK'' then ''CLICKED''
      else if py_upper U event_type = ascii ''ADD_TO_CART'' then ''ADDED_TO_CART''
      else ''INTERACTED_WITH'')"
  by (simp add: rel_type_def rel_type_map_def)

text \<open>On a text of ASCII characters, \<open>upper\<close> is the ASCII mapping of each character.\<close>

lemma py_upper_ascii:
  "\<forall>c\<in>set s. c < 128 \<Longrightarrow> py_upper U s = map upper_ascii s"
  by (induction s) (simp_all add: py_upper_def)

text \<open>A character is mapped to a character \<open>k\<close> that is not a lower-case letter exactly
  when it is the same letter as \<open>k\<close>.\<close>

lemma upper_ascii_same_letter:
  assumes "\<not> (97 \<le> k \<and> k \<le> 122)"
  shows "(upper_ascii c = k) = same_letter c k"
  using assms unfolding upper_ascii_def same_letter_def by (cases "97 \<le> c \<and> c \<le> 122") arith+

lemma map_upper_same_letter:
  assumes "\<forall>k\<in>set ks. \<not> (97 \<le> k \<and> k \<le> 122)"
  shows "(map upper_ascii s = ks) = list_all2 same_letter s ks"
  using assms
proof (induction s arbitrary: ks)
  case Nil
  show ?case by auto
next
  case (Cons c s)
  show ?case
  proof (cases ks)
    case Nil
    then show ?thesis by simp
  next
    case (Cons k ks')
    with Cons.prems have "(upper_ascii c = k) = same_letter c k"
      by (intro upper_ascii_same_letter) simp
    moreover from Cons Cons.prems Cons.IH [of ks']
    have "(map upper_ascii s = ks') = list_all2 same_letter s ks'" by simp
    ultimately show ?thesis using Cons by simp
  qed
qed

text \<open>Texts of the same letters have the same upper-case form.\<close>

lemma same_letter_upper:
  assumes "same_letter c d"
  shows "(if c < 128 then [upper_ascii c] else U c) = (if d < 128 then [upper_ascii d] else U d)"
  using assms unfolding same_letter_def upper_ascii_def by (elim disjE) simp_all

lemma py_upper_same_letter:
  "list_all2 same_letter a b \<Longrightarrow> py_upper U a = py_upper U b"
proof (induction rule: list_all2_induct)
  case Nil
  show ?case by simp
next
  case (Cons c a d b)
  from same_letter_upper [OF Cons.hyps(1), of U] Cons.IH show ?case
    by (simp add: py_upper_def)
qed

lemma event_calls_map: "event_calls U df = Inr (map (event_call U) df)"
proof -
  obtain bs where b: "chunk df 500 = Inr bs" and c: "concat bs = df"
    using chunk_default [of df] by blast
  have "concat (map (\<lambda>batch. map (event_call U) batch) bs) = map (event_call U) (concat bs)"
    by (simp add: map_concat)
  with b c show ?thesis by (simp add: event_calls_def)
qed

lemma digit_char_not_plus: "digit_char d \<noteq> CHR ''+''"
proof -
  have "(of_char (digit_char d) :: nat) = 48 + d mod 10"
    by (simp add: digit_char_def)
  then have "(of_char (digit_char d) :: nat) \<noteq> of_char CHR ''+''" by simp
  then show ?thesis by (simp only: of_char_eq_iff not_False_eq_True)
qed

lemma zpad_no_plus: "CHR ''+'' \<notin> set (zpad w n)"
  by (auto simp add: zpad_def digit_char_not_plus [symmetric])

lemma str_time_no_plus: "CHR ''+'' \<notin> set (str_time t)"
  by (simp add: str_time_def str_date_def zpad_no_plus)

lemma replace_skip:
  assumes "CHR ''+'' \<notin> set s"
  shows "py_replace (s @ r) ''+00:00'' ''Z'' = s @ py_replace r ''+00:00'' ''Z''"
  using assms
proof (induction s)
  case Nil
  show ?case by simp
next
  case (Cons c s)
  then have "c \<noteq> CHR ''+''" by auto
  then have "take (length ''+00:00'') ((c # s) @ r) \<noteq> ''+00:00''" by simp
  then have "py_replace ((c # s) @ r) ''+00:00'' ''Z'' = c # py_replace (s @ r) ''+00:00'' ''Z''"
    by (subst py_replace.simps) simp
  with Cons show ?case by simp
qed

lemma replace_nil: "py_replace [] ''+00:00'' ''Z'' = []"
  by (simp add: py_replace.simps)

lemma replace_utc: "py_replace ''+00:00'' ''+00:00'' ''Z'' = ''Z''"
  by (simp add: py_replace.simps)

lemma replace_none:
  assumes "CHR ''+'' \<notin> set s"
  shows "py_replace s ''+00:00'' ''Z'' = s"
  using replace_skip [OF assms, of "[]"] by (simp add: replace_nil)

lemma digit_char_not_Z: "digit_char d \<noteq> CHR ''Z''"
proof -
  have "(of_char (digit_char d) :: nat) = 48 + d mod 10"
    by (simp add: digit_char_def)
  then have "(of_char (digit_char d) :: nat) \<noteq> of_char CHR ''Z''" by simp
  then show ?thesis by (simp only: of_char_eq_iff not_False_eq_True)
qed

lemma zpad_no_Z: "CHR ''Z'' \<notin> set (zpad w n)"
  by (auto simp add: zpad_def digit_char_not_Z [symmetric])

lemma str_time_no_Z: "CHR ''Z'' \<notin> set (str_time t)"
  by (simp add: str_time_def str_date_def zpad_no_Z)

lemma digit_char_zero: "digit_char d = CHR ''0'' \<longleftrightarrow> d mod 10 = 0"
proof -
  have "(of_char (digit_char d) :: nat) = 48 + d mod 10"
    by (simp add: digit_char_def)
  then have "((of_char (digit_char d) :: nat) = of_char CHR ''0'') = (d mod 10 = 0)" by simp
  then show ?thesis by (simp only: of_char_eq_iff)
qed

lemma digit_char_0: "digit_char 0 = CHR ''0''"
  by (simp add: digit_char_zero)

lemma zpad2: "zpad 2 n = [digit_char (n div 10), digit_char n]"
  by (simp add: zpad_def upt_rec numeral_2_eq_2)

lemma str_offset_utc: "str_offset (Some 0) = ''+00:00''"
  by (simp add: str_offset_def zpad2 digit_char_0)

lemma ts_iso_split:
  "ts_iso t = str_time t @ py_replace (str_offset (ts_utcoffset t)) ''+00:00'' ''Z''"
  by (simp add: ts_iso_def isoformat_def replace_skip str_time_no_plus)

section \<open>Claims about the transformations\<close>

text \<open>
  Claim C2, as amended. The timestamp that an order or an event hands to the graph store is
  \<open>ts_iso\<close> of the row's timestamp. For a timestamp whose offset is zero, as a \<open>+00:00\<close>
  value and every value of a zoned column of one offset arrive, it is the date-time text
  followed by the designator \<open>Z\<close>. For a timestamp without offset it is the date-time text
  alone, with no \<open>Z\<close> in it.
\<close>

theorem ts_iso_by_offset:
  "o_ts (order_record r) = ts_iso (o_ts r) \<and>
   (\<exists>k ps. event_call U ev = EventWrite k ps \<and> ep_ts ps = ts_iso (e_ts ev)) \<and>
   (ts_utcoffset t = Some 0 \<longrightarrow> ts_iso t = str_time t @ ''Z'') \<and>
   (ts_utcoffset t = None \<longrightarrow> ts_iso t = str_time t \<and> CHR ''Z'' \<notin> set (ts_iso t))"
proof (intro conjI impI)
  show "o_ts (order_record r) = ts_iso (o_ts r)" by (simp add: order_record_def)
  show "\<exists>k ps. event_call U ev = EventWrite k ps \<and> ep_ts ps = ts_iso (e_ts ev)"
    by (simp add: event_call_def)
next
  assume "ts_utcoffset t = Some 0"
  then show "ts_iso t = str_time t @ ''Z''"
    by (simp add: ts_iso_split str_offset_utc replace_utc)
next
  assume n: "ts_utcoffset t = None"
  then show "ts_iso t = str_time t"
    by (simp add: ts_iso_split str_offset_def replace_nil)
  then show "CHR ''Z'' \<notin> set (ts_iso t)" by (simp add: str_time_no_Z)
qed

theorem ts_iso_by_offset_witness:
  "o_ts (order_record
     \<lparr>o_id = IntV 1, o_customer_id = IntV 7,
      o_ts = \<lparr>ts_date = \<lparr>d_year = 2024, d_month = 1, d_day = 5\<rparr>, ts_hour = 10,
        ts_minute = 0, ts_second = 7, ts_microsecond = 0, ts_utcoffset = Some 0\<rparr>\<rparr>) = ''2024-01-05T10:00:07Z'' \<and>
   o_ts (order_record
     \<lparr>o_id = IntV 1, o_customer_id = IntV 7,
      o_ts = \<lparr>ts_date = \<lparr>d_year = 2024, d_month = 1, d_day = 5\<rparr>, ts_hour = 10,
        ts_minute = 0, ts_second = 7, ts_microsecond = 0, ts_utcoffset = None\<rparr>\<rparr>) = ''2024-01-05T10:00:07''"
proof -
  have a: "o_ts (order_record
     \<lparr>o_id = IntV 1, o_customer_id = IntV 7,
      o_ts = \<lparr>ts_date = \<lparr>d_year = 2024, d_month = 1, d_day = 5\<rparr>, ts_hour = 10,
        ts_minute = 0, ts_second = 7, ts_microsecond = 0, ts_utcoffset = Some 0\<rparr>\<rparr>) =
      str_time
       \<lparr>ts_date = \<lparr>d_year = 2024, d_month = 1, d_day = 5\<rparr>, ts_hour = 10,
        ts_minute = 0, ts_second = 7, ts_microsecond = 0, ts_utcoffset = Some 0\<rparr> @ ''Z''"
    using ts_iso_by_offset [of "
     \<lparr>o_id = IntV 1, o_customer_id = IntV 7,
      o_ts = \<lparr>ts_date = \<lparr>d_year = 2024, d_month = 1, d_day = 5\<rparr>, ts_hour = 10,
        ts_minute = 0, ts_second = 7, ts_microsecond = 0, ts_utcoffset = Some 0\<rparr>\<rparr>" _ _ "
       \<lparr>ts_date = \<lparr>d_year = 2024, d_month = 1, d_day = 5\<rparr>, ts_hour = 10,
        ts_minute = 0, ts_second = 7, ts_microsecond = 0, ts_utcoffset = Some 0\<rparr>"]
    by simp
  have b: "o_ts (order_record
     \<lparr>o_id = IntV 1, o_customer_id = IntV 7,
      o_ts = \<lparr>ts_date = \<lparr>d_year = 2024, d_month = 1, d_day = 5\<rparr>, ts_hour = 10,
        ts_minute = 0, ts_second = 7, ts_microsecond = 0, ts_utcoffset = None\<rparr>\<rparr>) =
      str_time
       \<lparr>ts_date = \<lparr>d_year = 2024, d_month = 1, d_day = 5\<rparr>, ts_hour = 10,
        ts_minute = 0, ts_second = 7, ts_microsecond = 0, ts_utcoffset = None\<rparr>"
    using ts_iso_by_offset [of "
     \<lparr>o_id = IntV 1, o_customer_id = IntV 7,
      o_ts = \<lparr>ts_date = \<lparr>d_year = 2024, d_month = 1, d_day = 5\<rparr>, ts_hour = 10,
        ts_minute = 0, ts_second = 7, ts_microsecond = 0, ts_utcoffset = None\<rparr>\<rparr>" _ _ "
       \<lparr>ts_date = \<lparr>d_year = 2024, d_month = 1, d_day = 5\<rparr>, ts_hour = 10,
        ts_minute = 0, ts_second = 7, ts_microsecond = 0, ts_utcoffset = None\<rparr>"]
    by simp
  have "str_time
       \<lparr>ts_date = \<lparr>d_year = 2024, d_month = 1, d_day = 5\<rparr>, ts_hour = 10,
        ts_minute = 0, ts_second = 7, ts_microsecond = 0, ts_utcoffset = Some 0\<rparr> = ''2024-01-05T10:00:07''"
    by (simp add: str_time_def str_date_def zpad_def digit_char_def char_of_eq_iff upt_rec)
  moreover have "str_time
       \<lparr>ts_date = \<lparr>d_year = 2024, d_month = 1, d_day = 5\<rparr>, ts_hour = 10,
        ts_minute = 0, ts_second = 7, ts_microsecond = 0, ts_utcoffset = None\<rparr> = ''2024-01-05T10:00:07''"
    by (simp add: str_time_def str_date_def zpad_def digit_char_def char_of_eq_iff upt_rec)
  ultimately show ?thesis using a b by simp
qed

text \<open>
  Claim C2 as stated fails. Of two orders with the same timestamp fields, one with the
  offset \<open>+00:00\<close> and one without offset, only the first is handed over with the \<open>Z\<close>: the
  second is handed over as the bare date-time text.
\<close>

theorem ts_iso_counterexample:
  "o_ts (order_record
     \<lparr>o_id = IntV 1, o_customer_id = IntV 7,
      o_ts = \<lparr>ts_date = \<lparr>d_year = 2024, d_month = 1, d_day = 5\<rparr>, ts_hour = 10,
        ts_minute = 0, ts_second = 7, ts_microsecond = 0, ts_utcoffset = None\<rparr>\<rparr>) = ''2024-01-05T10:00:07'' \<and>
   o_ts (order_record
     \<lparr>o_id = IntV 1, o_customer_id = IntV 7,
      o_ts = \<lparr>ts_date = \<lparr>d_year = 2024, d_month = 1, d_day = 5\<rparr>, ts_hour = 10,
        ts_minute = 0, ts_second = 7, ts_microsecond = 0, ts_utcoffset = Some 0\<rparr>\<rparr>) = ''2024-01-05T10:00:07Z'' \<and>
   o_ts (order_record
     \<lparr>o_id = IntV 1, o_customer_id = IntV 7,
      o_ts = \<lparr>ts_date = \<lparr>d_year = 2024, d_month = 1, d_day = 5\<rparr>, ts_hour = 10,
        ts_minute = 0, ts_second = 7, ts_microsecond = 0, ts_utcoffset = None\<rparr>\<rparr>) \<noteq>
   o_ts (order_record
     \<lparr>o_id = IntV 1, o_customer_id = IntV 7,
      o_ts = \<lparr>ts_date = \<lparr>d_year = 2024, d_month = 1, d_day = 5\<rparr>, ts_hour = 10,
        ts_minute = 0, ts_second = 7, ts_microsecond = 0, ts_utcoffset = Some 0\<rparr>\<rparr>)"
  by (simp add: order_record_def ts_iso_def isoformat_def str_offset_def str_time_def
      str_date_def zpad_def digit_char_def char_of_eq_iff upt_rec py_replace.simps)

text \<open>
  Claim C3. The relationship kind of an event is a function of its \<open>event_type\<close> alone: the
  type is uppercased and looked up in the table \<open>VIEW\<close>, \<open>CLICK\<close>, \<open>ADD_TO_CART\<close>, with
  \<open>INTERACTED_WITH\<close> for every other value, so the result is one of the four kinds. For a
  type of ASCII characters this reads: the kind is \<open>VIEWED\<close>, \<open>CLICKED\<close> or
  \<open>ADDED_TO_CART\<close> exactly when the type is \<open>VIEW\<close>, \<open>CLICK\<close> or \<open>ADD_TO_CART\<close> in any
  mix of upper and lower case, and \<open>INTERACTED_WITH\<close> otherwise. Two types of the same
  letters get the same kind. The loader makes one call for each event row, in order, with the
  kind of that row, so no row is dropped.
\<close>

theorem rel_type_total:
  "rel_type U event_type =
     (if py_upper U event_type = ascii ''VIEW'' then ''VIEWED''
      else if py_upper U event_type = ascii ''CLICK'' then ''CLICKED''
      else if py_upper U event_type = ascii ''ADD_TO_CART'' then ''ADDED_TO_CART''
      else ''INTERACTED_WITH'') \<and>
   rel_type U event_type \<in> {''VIEWED'', ''CLICKED'', ''ADDED_TO_CART'', ''INTERACTED_WITH''} \<and>
   ((\<forall>c\<in>set event_type. c < 128) \<longrightarrow>
      rel_type U event_type =
        (if list_all2 same_letter event_type (ascii ''VIEW'') then ''VIEWED''
         else if list_all2 same_letter event_type (ascii ''CLICK'') then ''CLICKED''
         else if list_all2 same_letter event_type (ascii ''ADD_TO_CART'') then ''ADDED_TO_CART''
         else ''INTERACTED_WITH'')) \<and>
   (list_all2 same_letter event_type other \<longrightarrow> rel_type U event_type = rel_type U other) \<and>
   event_calls U df = Inr (map (event_call U) df) \<and>
   (\<exists>ps. event_call U record = EventWrite (rel_type U (e_event_type record)) ps)"
proof (intro conjI impI)
  show "rel_type U event_type =
     (if py_upper U event_type = ascii ''VIEW'' then ''VIEWED''
      else if py_upper U event_type = ascii ''CLICK'' then ''CLICKED''
      else if py_upper U event_type = ascii ''ADD_TO_CART'' then ''ADDED_TO_CART''
      else ''INTERACTED_WITH'')"
    by (rule rel_type_table)
  show "rel_type U event_type \<in> {''VIEWED'', ''CLICKED'', ''ADDED_TO_CART'', ''INTERACTED_WITH''}"
    by (simp add: rel_type_table)
  show "rel_type U event_type =
        (if list_all2 same_letter event_type (ascii ''VIEW'') then ''VIEWED''
         else if list_all2 same_letter event_type (ascii ''CLICK'') then ''CLICKED''
         else if list_all2 same_letter event_type (ascii ''ADD_TO_CART'') then ''ADDED_TO_CART''
         else ''INTERACTED_WITH'')"
    if a: "\<forall>c\<in>set event_type. c < 128"
  proof -
    have u: "py_upper U event_type = map upper_ascii event_type"
      using a by (rule py_upper_ascii)
    have "(map upper_ascii event_type = ascii ''VIEW'') =
          list_all2 same_letter event_type (ascii ''VIEW'')"
      by (rule map_upper_same_letter) (simp add: ascii_def)
    moreover have "(map upper_ascii event_type = ascii ''CLICK'') =
          list_all2 same_letter event_type (ascii ''CLICK'')"
      by (rule map_upper_same_letter) (simp add: ascii_def)
    moreover have "(map upper_ascii event_type = ascii ''ADD_TO_CART'') =
          list_all2 same_letter event_type (ascii ''ADD_TO_CART'')"
      by (rule map_upper_same_letter) (simp add: ascii_def)
    ultimately show ?thesis
      unfolding rel_type_table [of U event_type] u by (simp only:)
  qed
  show "rel_type U event_type = rel_type U other" if "list_all2 same_letter event_type other"
    using py_upper_same_letter [OF that, of U] by (simp add: rel_type_def)
  show "event_calls U df = Inr (map (event_call U) df)" by (rule event_calls_map)
  show "\<exists>ps. event_call U record = EventWrite (rel_type U (e_event_type record)) ps"
    by (simp add: event_call_def)
qed

theorem rel_type_total_witness:
  "rel_type (\<lambda>c. [c]) (ascii ''view'') = ''VIEWED'' \<and>
   rel_type (\<lambda>c. [c]) (ascii ''View'') = ''VIEWED'' \<and>
   rel_type (\<lambda>c. [c]) (ascii ''VIEW'') = ''VIEWED'' \<and>
   rel_type (\<lambda>c. [c]) (ascii ''click'') = ''CLICKED'' \<and>
   rel_type (\<lambda>c. [c]) (ascii ''Add_To_Cart'') = ''ADDED_TO_CART'' \<and>
   rel_type (\<lambda>c. [c]) (ascii ''PURCHASE'') = ''INTERACTED_WITH''"
proof -
  note t = rel_type_total [of "\<lambda>c. [c]", THEN conjunct2, THEN conjunct2, THEN conjunct1, THEN mp]
  have "rel_type (\<lambda>c. [c]) (ascii ''view'') = ''VIEWED''"
    by (subst t) (simp_all add: ascii_def same_letter_def)
  moreover have "rel_type (\<lambda>c. [c]) (ascii ''View'') = ''VIEWED''"
    by (subst t) (simp_all add: ascii_def same_letter_def)
  moreover have "rel_type (\<lambda>c. [c]) (ascii ''VIEW'') = ''VIEWED''"
    by (subst t) (simp_all add: ascii_def same_letter_def)
  moreover have "rel_type (\<lambda>c. [c]) (ascii ''click'') = ''CLICKED''"
    by (subst t) (simp_all add: ascii_def same_letter_def)
  moreover have "rel_type (\<lambda>c. [c]) (ascii ''Add_To_Cart'') = ''ADDED_TO_CART''"
    by (subst t) (simp_all add: ascii_def same_letter_def)
  moreover have "rel_type (\<lambda>c. [c]) (ascii ''PURCHASE'') = ''INTERACTED_WITH''"
    by (subst t) (simp_all add: ascii_def same_letter_def)
  ultimately show ?thesis by simp
qed

text \<open>
  Claim C7 at a bootstrap script with a comment line. The script has a \<open>//\<close> line, then the
  statement \<open>CREATE CONSTRAINT c\<close>, then the statement \<open>CREATE INDEX i\<close>. The piece before
  the first semicolon starts with the comment, so the whole piece is filtered out, the
  statement after the comment with it: only the second statement is executed.
\<close>

theorem cypher_statements_comment_line:
  "cypher_statements
     (ascii (''// Constraints'' @ [CHR 0x0A] @ ''CREATE CONSTRAINT c;'' @ [CHR 0x0A] @
             ''CREATE INDEX i;'' @ [CHR 0x0A])) = [ascii ''CREATE INDEX i'']"
  by (simp add: cypher_statements_def py_strip_def is_space_def py_startswith_def ascii_def)

text \<open>
  Claim C10. When the work with the graph store raises, \<open>/health\<close> returns a body with
  \<open>ok\<close> false and the text of the error, and it returns a body in every case; each of the
  seven other endpoints raises an HTTP error with status 500 for the same error.
\<close>

theorem health_check_returns:
  "health_check (Inl e) = Return \<lparr>ok = False, error = Some e\<rparr> \<and>
   (\<exists>body. health_check work = Return body) \<and>
   graph_stats (Inl e) = HTTPException 500 (''Database error: '' @ e) \<and>
   collaborative_recommendations (Inl e) = HTTPException 500 (''Database error: '' @ e) \<and>
   similar_product_recommendations (Inl e) = HTTPException 500 (''Database error: '' @ e) \<and>
   category_recommendations (Inl e) = HTTPException 500 (''Database error: '' @ e) \<and>
   trending_recommendations (Inl e) = HTTPException 500 (''Database error: '' @ e) \<and>
   list_customers (Inl e) = HTTPException 500 (''Database error: '' @ e) \<and>
   list_products (Inl e) = HTTPException 500 (''Database error: '' @ e)"
  by (simp add: health_check_def graph_stats_def collaborative_recommendations_def
      similar_product_recommendations_def category_recommendations_def
      trending_recommendations_def list_customers_def list_products_def database_guard_def
      split: sum.split)

section \<open>Properties of the pipeline\<close>

lemma run_calls_indep:
  "fst (run_calls f k cs g) = fst (run_calls f k cs g') \<and>
   snd (snd (run_calls f k cs g)) = snd (snd (run_calls f k cs g'))"
proof (induction cs arbitrary: k g g')
  case Nil
  show ?case by simp
next
  case (Cons c cs)
  from Cons [of "Suc k" "exec c g" "exec c g'"] show ?case
    by (simp add: split_beta)
qed

lemma run_calls_statements:
  "fst (snd (run_calls f k (map Statement ss) g)) = g"
  by (induction ss arbitrary: k) (simp_all add: split_beta)

lemma run_calls_no_fault:
  "run_calls None k cs g = (None, foldl (\<lambda>g c. exec c g) g cs, cs)"
  by (induction cs arbitrary: k g) simp_all

lemma run_phase_no_fault:
  "run_phase None (Inr cs) (None, g, served) =
     (None, foldl (\<lambda>g c. exec c g) g cs, served @ cs)"
  by (simp add: run_calls_no_fault)

text \<open>The bootstrap statements and the reset: either one of these calls raises, and the
  graph is as it was, or the graph is empty; which of the two, and the calls served, do not
  depend on the graph.\<close>

lemma reset_cases:
  "(\<exists>e l. \<forall>g. run_phase f (Inr [DetachDeleteAll])
                  (run_phase f (Inr (map Statement ss)) (None, g, [])) = (Some e, g, l)) \<or>
   (\<exists>l. \<forall>g. run_phase f (Inr [DetachDeleteAll])
                  (run_phase f (Inr (map Statement ss)) (None, g, [])) = (None, empty_graph, l))"
proof -
  define e1 where "e1 = fst (run_calls f 0 (map Statement ss) empty_graph)"
  define l1 where "l1 = snd (snd (run_calls f 0 (map Statement ss) empty_graph))"
  have r: "run_calls f 0 (map Statement ss) g = (e1, g, l1)" for g
    using run_calls_indep [of f 0 "map Statement ss" g empty_graph]
      run_calls_statements [of f 0 ss g]
    by (simp add: e1_def l1_def prod_eq_iff)
  have s1: "run_phase f (Inr (map Statement ss)) (None, g, []) = (e1, g, l1)" for g
    by (simp add: r)
  have s2: "run_phase f (Inr [DetachDeleteAll])
                  (run_phase f (Inr (map Statement ss)) (None, g, [])) =
            run_phase f (Inr [DetachDeleteAll]) (e1, g, l1)" for g
    by (simp add: r)
  show ?thesis
  proof (cases e1)
    case (Some e)
    then have "\<forall>g. run_phase f (Inr [DetachDeleteAll]) (e1, g, l1) = (Some e, g, l1)"
      by simp
    then show ?thesis unfolding s2 by blast
  next
    case None
    show ?thesis
    proof (cases "f = Some (length l1)")
      case True
      with None have "\<forall>g. run_phase f (Inr [DetachDeleteAll]) (e1, g, l1) =
                  (Some StoreError, g, l1)"
        by simp
      then show ?thesis unfolding s2 by blast
    next
      case False
      with None have "\<forall>g. run_phase f (Inr [DetachDeleteAll]) (e1, g, l1) =
                  (None, empty_graph, l1 @ [DetachDeleteAll])"
        by simp
      then show ?thesis unfolding s2 by blast
    qed
  qed
qed

lemma etl_body_cases:
  "(\<exists>e l. \<forall>g. etl_body env g = (Some e, g, l)) \<or> (\<exists>r. \<forall>g. etl_body env g = r)"
proof (cases "queries_cypher env")
  case (Inl e)
  then show ?thesis by (auto simp add: etl_body_def)
next
  case (Inr content)
  from reset_cases [of "store_fault env" "cypher_statements content"]
  show ?thesis
  proof (elim disjE exE)
    fix e l
    assume "\<forall>g. run_phase (store_fault env) (Inr [DetachDeleteAll])
                  (run_phase (store_fault env) (Inr (map Statement (cypher_statements content)))
                     (None, g, [])) = (Some e, g, l)"
    then have "\<forall>g. etl_body env g = (Some e, g, l)"
      by (simp add: etl_body_def Inr)
    then show ?thesis by blast
  next
    fix l
    assume "\<forall>g. run_phase (store_fault env) (Inr [DetachDeleteAll])
                  (run_phase (store_fault env) (Inr (map Statement (cypher_statements content)))
                     (None, g, [])) = (None, empty_graph, l)"
    then have "\<forall>g. etl_body env g =
        (case extract_tables env of
           Inl e \<Rightarrow> (Some e, empty_graph, l)
         | Inr t \<Rightarrow> load (unicode_upper env) (store_fault env) t (None, empty_graph, l))"
      by (simp add: etl_body_def Inr)
    then show ?thesis by blast
  qed
qed

lemma etl_cases:
  "(\<exists>e tr. \<forall>g. etl env g = \<lparr>raised = Some e, graph_after = g, trace = tr\<rparr>) \<or>
   (\<exists>r. \<forall>g. etl env g = r)"
proof (cases "postgres_ready env \<and> neo4j_ready env \<and> pg_connect_ok env \<and> driver_ok env")
  case False
  then have "\<exists>e tr. \<forall>g. etl env g = \<lparr>raised = Some e, graph_after = g, trace = tr\<rparr>"
    by (auto simp add: etl_def)
  then show ?thesis ..
next
  case True
  from etl_body_cases [of env] show ?thesis
  proof (elim disjE exE)
    fix e l assume "\<forall>g. etl_body env g = (Some e, g, l)"
    with True have "\<forall>g. etl env g = \<lparr>raised = Some e, graph_after = g,
        trace = [PgConnect, DriverCreate] @ map Run l @ [PgClose, DriverClose]\<rparr>"
      by (simp add: etl_def)
    then show ?thesis by blast
  next
    fix r assume "\<forall>g. etl_body env g = r"
    with True have "\<forall>g. etl env g = (case r of (e, g', served) \<Rightarrow>
                \<lparr>raised = e, graph_after = g',
                 trace = [PgConnect, DriverCreate] @ map Run served @ [PgClose, DriverClose]\<rparr>)"
      by (simp add: etl_def)
    then show ?thesis by blast
  qed
qed

lemma batched_chunks:
  "\<exists>bs. chunk df 500 = Inr bs \<and> concat bs = df \<and>
        int (length bs) = \<lceil>real (length df) / 500\<rceil> \<and> batched mk df = Inr (map mk bs)"
proof -
  obtain bs where "chunk df 500 = Inr bs" "concat bs = df"
    "int (length bs) = \<lceil>real (length df) / 500\<rceil>"
    using chunk_default [of df] by blast
  then show ?thesis by (auto simp add: batched_def)
qed

lemma load_no_fault:
  assumes "category_calls (df_categories t) = Inr cc"
    and "product_calls (df_products t) = Inr pc"
    and "customer_calls (df_customers t) = Inr cuc"
    and "order_calls (df_orders t) = Inr oc"
    and "order_item_calls (df_order_items t) = Inr oic"
    and "event_calls U (df_events t) = Inr ec"
  shows "load U None t (None, g, l) =
     (None, foldl (\<lambda>g c. exec c g) g (cc @ pc @ cuc @ oc @ oic @ ec @ verify_calls),
      l @ cc @ pc @ cuc @ oc @ oic @ ec @ verify_calls)"
  by (simp add: load_def assms run_calls_no_fault)

text \<open>A run that meets no failure outside the program: it does not raise, whatever the
  rows are; the graph is the result of the loading calls on the empty graph; the store
  serves the bootstrap statements, the reset, the calls of the six loops and the counting
  queries, in this order.\<close>

lemma etl_no_fault:
  assumes "postgres_ready env" "neo4j_ready env" "pg_connect_ok env" "driver_ok env"
    and "store_fault env = None"
    and "queries_cypher env = Inr content"
    and "extract_tables env = Inr t"
  shows "\<exists>cc pc cuc oc oic.
      category_calls (df_categories t) = Inr cc \<and>
      product_calls (df_products t) = Inr pc \<and>
      customer_calls (df_customers t) = Inr cuc \<and>
      order_calls (df_orders t) = Inr oc \<and>
      order_item_calls (df_order_items t) = Inr oic \<and>
      etl env g =
        \<lparr>raised = None,
         graph_after = foldl (\<lambda>g c. exec c g) empty_graph
           (cc @ pc @ cuc @ oc @ oic @ map (event_call (unicode_upper env)) (df_events t) @ verify_calls),
         trace = [PgConnect, DriverCreate] @
           map Run (map Statement (cypher_statements content) @ [DetachDeleteAll] @
                    cc @ pc @ cuc @ oc @ oic @ map (event_call (unicode_upper env)) (df_events t) @ verify_calls) @
           [PgClose, DriverClose]\<rparr>"
proof -
  obtain cc where cc: "category_calls (df_categories t) = Inr cc"
    using batched_chunks [of "df_categories t" CategoryBatch] by (auto simp: category_calls_def)
  obtain pc where pc: "product_calls (df_products t) = Inr pc"
    using batched_chunks [of "df_products t" ProductBatch] by (auto simp: product_calls_def)
  obtain cuc where cuc: "customer_calls (df_customers t) = Inr cuc"
    using batched_chunks [of "df_customers t"] by (auto simp: customer_calls_def)
  obtain oc where oc: "order_calls (df_orders t) = Inr oc"
    using batched_chunks [of "df_orders t"] by (auto simp: order_calls_def)
  obtain oic where oic: "order_item_calls (df_order_items t) = Inr oic"
    using batched_chunks [of "df_order_items t" OrderItemBatch]
    by (auto simp: order_item_calls_def)
  note ec = event_calls_map [of "unicode_upper env" "df_events t"]
  have s2: "run_phase None (Inr [DetachDeleteAll])
        (run_phase None (Inr (map Statement (cypher_statements content))) (None, g, [])) =
      (None, empty_graph, map Statement (cypher_statements content) @ [DetachDeleteAll])"
    by (simp add: run_calls_no_fault)
  have body: "etl_body env g =
      (None, foldl (\<lambda>g c. exec c g) empty_graph
           (cc @ pc @ cuc @ oc @ oic @ map (event_call (unicode_upper env)) (df_events t) @ verify_calls),
       (map Statement (cypher_statements content) @ [DetachDeleteAll]) @
           cc @ pc @ cuc @ oc @ oic @ map (event_call (unicode_upper env)) (df_events t) @ verify_calls)"
    unfolding etl_body_def assms(5,6,7) sum.case s2 prod.case option.case
    by (rule load_no_fault [OF cc pc cuc oc oic ec])
  have "etl env g =
        \<lparr>raised = None,
         graph_after = foldl (\<lambda>g c. exec c g) empty_graph
           (cc @ pc @ cuc @ oc @ oic @ map (event_call (unicode_upper env)) (df_events t) @ verify_calls),
         trace = [PgConnect, DriverCreate] @
           map Run (map Statement (cypher_statements content) @ [DetachDeleteAll] @
                    cc @ pc @ cuc @ oc @ oic @ map (event_call (unicode_upper env)) (df_events t) @ verify_calls) @
           [PgClose, DriverClose]\<rparr>"
    using assms(1-4) by (simp add: etl_def body)
  with cc pc cuc oc oic show ?thesis by blast
qed

text \<open>Once both connections are acquired, the run ends by closing them, the relational
  connection first, whatever the \<open>try\<close> block does.\<close>

lemma etl_finally:
  assumes "postgres_ready env" "neo4j_ready env" "pg_connect_ok env" "driver_ok env"
  shows "\<exists>served. trace (etl env g) =
           [PgConnect, DriverCreate] @ map Run served @ [PgClose, DriverClose]"
  using assms by (auto simp add: etl_def split_beta)

text \<open>The example run, evaluated.\<close>

lemma example_extract: "extract_tables example_env = Inr example_tables"
  by (simp add: extract_tables_def example_env_def example_tables_def)

lemma example_ready:
  "postgres_ready example_env" "neo4j_ready example_env" "pg_connect_ok example_env"
  "driver_ok example_env" "store_fault example_env = None"
  "queries_cypher example_env = Inr (ascii ''CREATE INDEX i;'')"
  by (simp_all add: example_env_def)

lemma example_statements:
  "cypher_statements (ascii ''CREATE INDEX i;'') = [ascii ''CREATE INDEX i'']"
  by (simp add: cypher_statements_def py_strip_def is_space_def py_startswith_def ascii_def)

lemma chunk_single: "xs \<noteq> [] \<Longrightarrow> length xs \<le> 500 \<Longrightarrow> chunk xs 500 = Inr [xs]"
proof -
  assume a: "xs \<noteq> []" "length xs \<le> 500"
  have s: "(0::int) < 500" by simp
  from a have "(length xs + 500 - 1) div 500 = 1"
    by (cases xs) (simp_all add: div_eq_dividend_iff le_div_geq)
  with chunk_blocks [OF s, of xs] a show ?thesis by simp
qed

lemma chunk_nil: "chunk [] 500 = Inr []"
  using chunk_blocks [of 500 "[]"] by simp


lemma example_run:
  "etl example_env g =
     \<lparr>raised = None, graph_after = example_graph,
      trace = [PgConnect, DriverCreate, Run (Statement (ascii ''CREATE INDEX i'')), Run DetachDeleteAll,
               Run (CategoryBatch (df_categories example_tables)),
               Run (ProductBatch (df_products example_tables)),
               Run (OrderItemBatch [example_item]),
               Run (CountNodes ''Customer''), Run (CountNodes ''Product''),
               Run (CountNodes ''Order''), Run (CountNodes ''Category''), Run CountRels,
               PgClose, DriverClose]\<rparr>"
proof -
  have c: "category_calls (df_categories example_tables) =
             Inr [CategoryBatch (df_categories example_tables)]"
    "product_calls (df_products example_tables) = Inr [ProductBatch (df_products example_tables)]"
    "customer_calls (df_customers example_tables) = Inr []"
    "order_calls (df_orders example_tables) = Inr []"
    "order_item_calls (df_order_items example_tables) = Inr [OrderItemBatch [example_item]]"
    by (simp_all add: category_calls_def product_calls_def customer_calls_def order_calls_def
        order_item_calls_def batched_def chunk_single chunk_nil example_tables_def)
  have g: "foldl (\<lambda>g c. exec c g) empty_graph
       ([CategoryBatch (df_categories example_tables)] @
        [ProductBatch (df_products example_tables)] @ [] @ [] @
        [OrderItemBatch [example_item]] @ map (event_call (unicode_upper example_env)) (df_events example_tables) @
        verify_calls) = example_graph"
    by (simp add: example_tables_def example_item_def example_graph_def verify_calls_def
        empty_graph_def category_row_exec_def product_row_exec_def order_item_row_exec_def
        create_node_def create_rels_def contains_edges_def match_nodes_def Let_def)
  from etl_no_fault [OF example_ready(1-4) example_ready(5) example_ready(6) example_extract,
      of g]
  obtain cc pc cuc oc oic where
    k: "category_calls (df_categories example_tables) = Inr cc"
      "product_calls (df_products example_tables) = Inr pc"
      "customer_calls (df_customers example_tables) = Inr cuc"
      "order_calls (df_orders example_tables) = Inr oc"
      "order_item_calls (df_order_items example_tables) = Inr oic"
    and e: "etl example_env g =
        \<lparr>raised = None,
         graph_after = foldl (\<lambda>g c. exec c g) empty_graph
           (cc @ pc @ cuc @ oc @ oic @ map (event_call (unicode_upper example_env)) (df_events example_tables) @
            verify_calls),
         trace = [PgConnect, DriverCreate] @
           map Run (map Statement (cypher_statements (ascii ''CREATE INDEX i;'')) @ [DetachDeleteAll] @
                    cc @ pc @ cuc @ oc @ oic @ map (event_call (unicode_upper example_env)) (df_events example_tables) @
                    verify_calls) @
           [PgClose, DriverClose]\<rparr>"
    by blast
  from k c have v: "cc = [CategoryBatch (df_categories example_tables)]"
    "pc = [ProductBatch (df_products example_tables)]" "cuc = []" "oc = []"
    "oic = [OrderItemBatch [example_item]]"
    by simp_all
  have ev: "df_events example_tables = []" by (simp add: example_tables_def)
  show ?thesis
    unfolding e v g by (simp add: example_statements verify_calls_def ev)
qed

section \<open>Claims about the pipeline\<close>

text \<open>
  Claim C4. A second run against the same source, with the same environment, leaves the
  graph that the first run left, so the node and relationship counts of the verification
  step are the same both times, and it ends as the first run ended. A run that completes
  leaves the same graph whatever the graph held before: the reset empties it before anything
  is loaded.
\<close>

theorem etl_idempotent:
  "graph_after (etl env (graph_after (etl env g))) = graph_after (etl env g) \<and>
   verify_counts (graph_after (etl env (graph_after (etl env g)))) =
     verify_counts (graph_after (etl env g)) \<and>
   raised (etl env (graph_after (etl env g))) = raised (etl env g) \<and>
   (raised (etl env g) = None \<longrightarrow> graph_after (etl env g') = graph_after (etl env g))"
proof -
  from etl_cases [of env] show ?thesis
  proof (elim disjE exE)
    fix e tr assume a: "\<forall>g. etl env g = \<lparr>raised = Some e, graph_after = g, trace = tr\<rparr>"
    show ?thesis by (simp add: a)
  next
    fix r assume a: "\<forall>g. etl env g = r"
    show ?thesis by (simp add: a)
  qed
qed

theorem etl_idempotent_witness:
  "raised (etl example_env other_graph) = None \<and>
   graph_after (etl example_env example_graph) = graph_after (etl example_env other_graph) \<and>
   verify_counts (graph_after (etl example_env (graph_after (etl example_env other_graph)))) =
     [0, 1, 0, 1, 1]"
proof -
  have r: "raised (etl example_env other_graph) = None" by (simp add: example_run)
  have a: "graph_after (etl example_env example_graph) =
           graph_after (etl example_env other_graph)"
    using etl_idempotent [of example_env other_graph example_graph] r by blast
  have "verify_counts (graph_after (etl example_env (graph_after (etl example_env other_graph)))) =
        verify_counts (graph_after (etl example_env other_graph))"
    using etl_idempotent [of example_env other_graph] by blast
  also have "\<dots> = [0, 1, 0, 1, 1]"
    by (simp add: example_run verify_counts_def count_label_def example_graph_def)
  finally show ?thesis using r a by simp
qed

text \<open>
  Claim C5. Each of the five batched loops makes one call for each group that \<open>chunk\<close>
  returns for its rows, with that group as the batch, so \<open>ceil(n / 500)\<close> calls for \<open>n\<close>
  rows; the loop over the events makes one call for each event row. In a run that meets no
  failure outside the program, these are the calls that the store serves between the reset
  and the counting queries.
\<close>

theorem loader_round_trips:
  "(\<exists>bs. chunk cats 500 = Inr bs \<and> category_calls cats = Inr (map CategoryBatch bs) \<and>
      int (length bs) = \<lceil>real (length cats) / 500\<rceil>) \<and>
   (\<exists>bs. chunk prods 500 = Inr bs \<and> product_calls prods = Inr (map ProductBatch bs) \<and>
      int (length bs) = \<lceil>real (length prods) / 500\<rceil>) \<and>
   (\<exists>bs. chunk custs 500 = Inr bs \<and>
      customer_calls custs = Inr (map (\<lambda>batch. CustomerBatch (map customer_record batch)) bs) \<and>
      int (length bs) = \<lceil>real (length custs) / 500\<rceil>) \<and>
   (\<exists>bs. chunk ords 500 = Inr bs \<and>
      order_calls ords = Inr (map (\<lambda>batch. OrderBatch (map order_record batch)) bs) \<and>
      int (length bs) = \<lceil>real (length ords) / 500\<rceil>) \<and>
   (\<exists>bs. chunk items 500 = Inr bs \<and> order_item_calls items = Inr (map OrderItemBatch bs) \<and>
      int (length bs) = \<lceil>real (length items) / 500\<rceil>) \<and>
   (event_calls U evs = Inr (map (event_call U) evs) \<and>
    length (map (event_call U) evs) = length evs) \<and>
   (postgres_ready env \<and> neo4j_ready env \<and> pg_connect_ok env \<and> driver_ok env \<and>
    store_fault env = None \<and> queries_cypher env = Inr content \<and>
    extract_tables env = Inr t \<longrightarrow>
    (\<exists>cc pc cuc oc oic.
      category_calls (df_categories t) = Inr cc \<and>
      product_calls (df_products t) = Inr pc \<and>
      customer_calls (df_customers t) = Inr cuc \<and>
      order_calls (df_orders t) = Inr oc \<and>
      order_item_calls (df_order_items t) = Inr oic \<and>
      trace (etl env g) =
        [PgConnect, DriverCreate] @
        map Run (map Statement (cypher_statements content) @ [DetachDeleteAll] @
                 cc @ pc @ cuc @ oc @ oic @ map (event_call (unicode_upper env)) (df_events t) @ verify_calls) @
        [PgClose, DriverClose]))"
proof (intro conjI impI)
  show "\<exists>bs. chunk cats 500 = Inr bs \<and> category_calls cats = Inr (map CategoryBatch bs) \<and>
      int (length bs) = \<lceil>real (length cats) / 500\<rceil>"
    using batched_chunks [of cats CategoryBatch] by (auto simp add: category_calls_def)
  show "\<exists>bs. chunk prods 500 = Inr bs \<and> product_calls prods = Inr (map ProductBatch bs) \<and>
      int (length bs) = \<lceil>real (length prods) / 500\<rceil>"
    using batched_chunks [of prods ProductBatch] by (auto simp add: product_calls_def)
  show "\<exists>bs. chunk custs 500 = Inr bs \<and>
      customer_calls custs = Inr (map (\<lambda>batch. CustomerBatch (map customer_record batch)) bs) \<and>
      int (length bs) = \<lceil>real (length custs) / 500\<rceil>"
    using batched_chunks [of custs "\<lambda>batch. CustomerBatch (map customer_record batch)"]
    by (auto simp add: customer_calls_def)
  show "\<exists>bs. chunk ords 500 = Inr bs \<and>
      order_calls ords = Inr (map (\<lambda>batch. OrderBatch (map order_record batch)) bs) \<and>
      int (length bs) = \<lceil>real (length ords) / 500\<rceil>"
    using batched_chunks [of ords "\<lambda>batch. OrderBatch (map order_record batch)"]
    by (auto simp add: order_calls_def)
  show "\<exists>bs. chunk items 500 = Inr bs \<and> order_item_calls items = Inr (map OrderItemBatch bs) \<and>
      int (length bs) = \<lceil>real (length items) / 500\<rceil>"
    using batched_chunks [of items OrderItemBatch] by (auto simp add: order_item_calls_def)
  show "event_calls U evs = Inr (map (event_call U) evs)" by (rule event_calls_map)
  show "length (map (event_call U) evs) = length evs" by simp
next
  assume a: "postgres_ready env \<and> neo4j_ready env \<and> pg_connect_ok env \<and> driver_ok env \<and>
    store_fault env = None \<and> queries_cypher env = Inr content \<and>
    extract_tables env = Inr t"
  then have "postgres_ready env" "neo4j_ready env" "pg_connect_ok env" "driver_ok env"
    "store_fault env = None" "queries_cypher env = Inr content" "extract_tables env = Inr t"
    by simp_all
  from etl_no_fault [OF this, of g]
  obtain cc pc cuc oc oic where
    "category_calls (df_categories t) = Inr cc"
    "product_calls (df_products t) = Inr pc"
    "customer_calls (df_customers t) = Inr cuc"
    "order_calls (df_orders t) = Inr oc"
    "order_item_calls (df_order_items t) = Inr oic"
    and e: "etl env g =
        \<lparr>raised = None,
         graph_after = foldl (\<lambda>g c. exec c g) empty_graph
           (cc @ pc @ cuc @ oc @ oic @ map (event_call (unicode_upper env)) (df_events t) @ verify_calls),
         trace = [PgConnect, DriverCreate] @
           map Run (map Statement (cypher_statements content) @ [DetachDeleteAll] @
                    cc @ pc @ cuc @ oc @ oic @ map (event_call (unicode_upper env)) (df_events t) @ verify_calls) @
           [PgClose, DriverClose]\<rparr>"
    by blast
  moreover have "trace (etl env g) = [PgConnect, DriverCreate] @
           map Run (map Statement (cypher_statements content) @ [DetachDeleteAll] @
                    cc @ pc @ cuc @ oc @ oic @ map (event_call (unicode_upper env)) (df_events t) @ verify_calls) @
           [PgClose, DriverClose]"
    unfolding e by simp
  ultimately show "\<exists>cc pc cuc oc oic.
      category_calls (df_categories t) = Inr cc \<and>
      product_calls (df_products t) = Inr pc \<and>
      customer_calls (df_customers t) = Inr cuc \<and>
      order_calls (df_orders t) = Inr oc \<and>
      order_item_calls (df_order_items t) = Inr oic \<and>
      trace (etl env g) =
        [PgConnect, DriverCreate] @
        map Run (map Statement (cypher_statements content) @ [DetachDeleteAll] @
                 cc @ pc @ cuc @ oc @ oic @ map (event_call (unicode_upper env)) (df_events t) @ verify_calls) @
        [PgClose, DriverClose]"
    by blast
qed

theorem loader_round_trips_witness:
  "postgres_ready example_env \<and> neo4j_ready example_env \<and> pg_connect_ok example_env \<and>
   driver_ok example_env \<and> store_fault example_env = None \<and>
   queries_cypher example_env = Inr (ascii ''CREATE INDEX i;'') \<and>
   extract_tables example_env = Inr example_tables \<and>
   category_calls (df_categories example_tables) =
     Inr [CategoryBatch (df_categories example_tables)] \<and>
   Run (CategoryBatch (df_categories example_tables)) \<in> set (trace (etl example_env other_graph))"
proof -
  have h: "postgres_ready example_env \<and> neo4j_ready example_env \<and> pg_connect_ok example_env \<and>
    driver_ok example_env \<and> store_fault example_env = None \<and>
    queries_cypher example_env = Inr (ascii ''CREATE INDEX i;'') \<and>
    extract_tables example_env = Inr example_tables"
    by (simp add: example_ready example_extract)
  have one: "chunk (df_categories example_tables) 500 = Inr [df_categories example_tables]"
    by (rule chunk_single) (simp_all add: example_tables_def)
  from loader_round_trips [of "df_categories example_tables"]
  obtain bs where "chunk (df_categories example_tables) 500 = Inr bs"
    and "category_calls (df_categories example_tables) = Inr (map CategoryBatch bs)"
    by blast
  with one have c: "category_calls (df_categories example_tables) =
     Inr [CategoryBatch (df_categories example_tables)]"
    by simp
  from loader_round_trips [of _ _ _ _ _ _ _ example_env "ascii ''CREATE INDEX i;''" example_tables
      other_graph] h
  obtain cc pc cuc oc oic where "category_calls (df_categories example_tables) = Inr cc"
    and "trace (etl example_env other_graph) =
        [PgConnect, DriverCreate] @
        map Run (map Statement (cypher_statements (ascii ''CREATE INDEX i;'')) @ [DetachDeleteAll] @
                 cc @ pc @ cuc @ oc @ oic @ map (event_call (unicode_upper example_env)) (df_events example_tables) @
                 verify_calls) @
        [PgClose, DriverClose]"
    by blast
  with c have "Run (CategoryBatch (df_categories example_tables))
      \<in> set (trace (etl example_env other_graph))"
    by simp
  with h c show ?thesis by simp
qed

text \<open>
  Claim C6 at a run whose graph driver cannot be created. The two readiness polls return
  and the relational connection is acquired, then creating the driver raises. This happens
  before the \<open>try\<close> block, so its \<open>finally\<close> clause does not run: the run ends with the
  relational connection acquired and not closed.
\<close>

theorem etl_driver_failure:
  "etl (env\<lparr>postgres_ready := True, neo4j_ready := True, pg_connect_ok := True,
           driver_ok := False\<rparr>) g =
     \<lparr>raised = Some StoreError, graph_after = g, trace = [PgConnect]\<rparr> \<and>
   PgClose \<notin> set (trace (etl (env\<lparr>postgres_ready := True, neo4j_ready := True,
                                     pg_connect_ok := True, driver_ok := False\<rparr>) g))"
  by (simp add: etl_def)

end
